theory Spec2Isabelle
  imports Complex_Main "HOL-Library.AList" "HOL-Library.Multiset"
begin

section \<open>Data model\<close>

text \<open>
  A Python \<open>str\<close> is a sequence of Unicode code points, and \<open>len\<close> counts code points,
  so a string is a list of code points here (\<open>"T1"\<close> is \<open>[84, 49]\<close>).  \<open>ord_str\<close> turns an
  ASCII literal into that form.  A battery level is a \<open>float\<close> that is only compared with
  \<open>20\<close>; the arithmetic on coordinates is rounded as the section on floating-point numbers
  says.  \<open>created_at\<close> is an opaque
  time stamp.  The two \<open>status\<close> and \<open>created_at\<close> fields of \<open>Robot\<close> and \<open>Task\<close> carry a
  suffix, and the coordinates of \<open>Position\<close> are \<open>pos_x\<close> and \<open>pos_y\<close>.
\<close>

type_synonym pystr = "nat list"

definition ord_str :: "string \<Rightarrow> pystr" where
  "ord_str s = map of_char s"

datatype error = ValueError | SchedulerError | RobotNotFoundError | TaskNotFoundError

text \<open>\<open>except SchedulerError\<close> also catches the two subclasses of \<open>SchedulerError\<close>.\<close>

fun is_SchedulerError :: "error \<Rightarrow> bool" where
  "is_SchedulerError ValueError = False"
| "is_SchedulerError SchedulerError = True"
| "is_SchedulerError RobotNotFoundError = True"
| "is_SchedulerError TaskNotFoundError = True"

subsection \<open>Floating-point numbers\<close>

text \<open>
  A \<open>float\<close> is an IEEE-754 double.  It is held as the real number it stands for, and an
  arithmetic operation of the source is the exact operation followed by rounding to the
  nearest double, ties to the even significand.  Around \<open>x\<close> the doubles are \<open>ulp x\<close> apart:
  that is \<open>2\<close> to the power \<open>e - 52\<close> where \<open>e\<close> is the binary exponent of \<open>x\<close>, and never less
  than \<open>2\<close> to the power \<open>- 1074\<close>, the spacing of the subnormal numbers.  Infinities and
  \<open>NaN\<close> are left out: no operation here overflows on coordinates between \<open>- 1000\<close> and
  \<open>1000\<close>.
\<close>

definition round_even :: "real \<Rightarrow> int" where
  "round_even y =
     (let f = \<lfloor>y\<rfloor>; d = y - of_int f
      in if d < 1 / 2 then f else if d > 1 / 2 then f + 1 else if even f then f else f + 1)"

definition ulp :: "real \<Rightarrow> real" where
  "ulp x = 2 powi (max \<lfloor>log 2 \<bar>x\<bar>\<rfloor> (- 1022) - 52)"

definition round_double :: "real \<Rightarrow> real" where
  "round_double x = (if x = 0 then 0 else of_int (round_even (x / ulp x)) * ulp x)"

definition is_double :: "real \<Rightarrow> bool" where
  "is_double x \<longleftrightarrow> round_double x = x"

text \<open>The smallest positive double, and half of it: a result of that size or less rounds
  to zero.\<close>

definition least :: real where
  "least = 2 powi (- 1074)"

definition half_least :: real where
  "half_least = 2 powi (- 1075)"

text \<open>The operators \<open>-\<close>, \<open>+\<close>, \<open>** 2\<close> and \<open>** 0.5\<close> on floats.  The two powers are calls of
  the C library's \<open>pow\<close>, taken as correctly rounded.\<close>

definition float_sub :: "real \<Rightarrow> real \<Rightarrow> real" where
  "float_sub a b = round_double (a - b)"

definition float_add :: "real \<Rightarrow> real \<Rightarrow> real" where
  "float_add a b = round_double (a + b)"

definition float_pow2 :: "real \<Rightarrow> real" where
  "float_pow2 a = round_double (a\<^sup>2)"

definition float_pow_half :: "real \<Rightarrow> real" where
  "float_pow_half a = round_double (sqrt a)"

subsection \<open>models/robot.py\<close>

datatype RobotStatus = IDLE | BUSY | CHARGING | MAINTENANCE

record position =
  pos_x :: real
  pos_y :: real

text \<open>The bounds \<open>ge=-1000\<close> and \<open>le=1000\<close> that the two fields of \<open>Position\<close> declare.\<close>

definition position_ok :: "position \<Rightarrow> bool" where
  "position_ok p \<longleftrightarrow> - 1000 \<le> pos_x p \<and> pos_x p \<le> 1000 \<and> - 1000 \<le> pos_y p \<and> pos_y p \<le> 1000"

definition distance_to :: "position \<Rightarrow> position \<Rightarrow> real" where
  "distance_to self other =
     float_pow_half (float_add (float_pow2 (float_sub (pos_x self) (pos_x other)))
                               (float_pow2 (float_sub (pos_y self) (pos_y other))))"

record robot =
  robot_id :: pystr
  name :: pystr
  position :: position
  status_r :: RobotStatus
  current_task :: "pystr option"
  battery_level :: real
  created_at_r :: nat

text \<open>\<open>validate_robot_id\<close> accepts the identifiers that start with \<open>R\<close> (code point 82).\<close>

definition validate_robot_id :: "pystr \<Rightarrow> bool" where
  "validate_robot_id v \<longleftrightarrow> take 1 v = [82]"

definition is_available :: "robot \<Rightarrow> bool" where
  "is_available self \<longleftrightarrow> status_r self = IDLE \<and> battery_level self > 20"

text \<open>
  A method that mutates its object returns the outcome of the call (\<open>Inl\<close> the exception
  raised, \<open>Inr\<close> the value returned) together with the object as the call leaves it.
\<close>

definition robot_assign_task :: "robot \<Rightarrow> pystr \<Rightarrow> (error + unit) \<times> robot" where
  "robot_assign_task self tid =
     (if \<not> is_available self then (Inl ValueError, self)
      else (Inr (), self\<lparr>current_task := Some tid, status_r := BUSY\<rparr>))"

definition robot_complete_task :: "robot \<Rightarrow> robot" where
  "robot_complete_task self = self\<lparr>current_task := None, status_r := IDLE\<rparr>"

definition move_to :: "robot \<Rightarrow> position \<Rightarrow> robot" where
  "move_to self new_position = self\<lparr>position := new_position\<rparr>"

subsection \<open>models/task.py\<close>

datatype TaskType = DELIVERY | PATROL | CLEANING

datatype TaskStatus = PENDING | ASSIGNED | IN_PROGRESS | COMPLETED | FAILED

record task =
  task_id :: pystr
  task_type :: TaskType
  target_position :: position
  priority :: int
  status_t :: TaskStatus
  assigned_robot :: "pystr option"
  created_at_t :: nat
  estimated_duration :: int
  description :: pystr

text \<open>The characters that \<open>str.strip()\<close> removes: those for which \<open>str.isspace\<close> holds.\<close>

definition is_space :: "nat \<Rightarrow> bool" where
  "is_space c \<longleftrightarrow> (9 \<le> c \<and> c \<le> 13) \<or> (28 \<le> c \<and> c \<le> 32) \<or> c = 133 \<or> c = 160 \<or> c = 5760
     \<or> (8192 \<le> c \<and> c \<le> 8202) \<or> c = 8232 \<or> c = 8233 \<or> c = 8239 \<or> c = 8287 \<or> c = 12288"

definition strip :: "pystr \<Rightarrow> pystr" where
  "strip s = rev (dropWhile is_space (rev (dropWhile is_space s)))"

definition is_high_priority :: "task \<Rightarrow> bool" where
  "is_high_priority self \<longleftrightarrow> priority self \<ge> 4"

definition is_pending :: "task \<Rightarrow> bool" where
  "is_pending self \<longleftrightarrow> status_t self = PENDING"

definition is_completed :: "task \<Rightarrow> bool" where
  "is_completed self \<longleftrightarrow> status_t self = COMPLETED"

definition assign_to_robot :: "task \<Rightarrow> pystr \<Rightarrow> (error + unit) \<times> task" where
  "assign_to_robot self rid =
     (if \<not> is_pending self then (Inl ValueError, self)
      else (Inr (), self\<lparr>assigned_robot := Some rid, status_t := ASSIGNED\<rparr>))"

definition start_execution :: "task \<Rightarrow> (error + unit) \<times> task" where
  "start_execution self =
     (if status_t self \<noteq> ASSIGNED then (Inl ValueError, self)
      else (Inr (), self\<lparr>status_t := IN_PROGRESS\<rparr>))"

definition complete :: "task \<Rightarrow> (error + unit) \<times> task" where
  "complete self =
     (if status_t self \<noteq> IN_PROGRESS then (Inl ValueError, self)
      else (Inr (), self\<lparr>status_t := COMPLETED\<rparr>))"

text \<open>The text put between the description and the reason: a newline, four CJK characters,
  a colon and a space.\<close>

definition failure_label :: pystr where
  "failure_label = [10, 22833, 36133, 21407, 22240, 58, 32]"

definition fail :: "task \<Rightarrow> pystr \<Rightarrow> task" where
  "fail self reason =
     (let self1 = self\<lparr>status_t := FAILED\<rparr>
      in if reason \<noteq> [] then self1\<lparr>description := strip (description self1 @ failure_label @ reason)\<rparr>
         else self1)"

text \<open>
  \<open>validate_task_id\<close> accepts the identifiers that start with \<open>T\<close> (code point 84).
  \<open>task_fields_ok\<close> collects the constraints that the class declares on the fields of a
  \<open>Task\<close> and checks when one is constructed.
\<close>

definition validate_task_id :: "pystr \<Rightarrow> bool" where
  "validate_task_id v \<longleftrightarrow> take 1 v = [84]"

definition task_fields_ok :: "task \<Rightarrow> bool" where
  "task_fields_ok t \<longleftrightarrow>
     1 \<le> length (task_id t) \<and> length (task_id t) \<le> 50 \<and> validate_task_id (task_id t)
     \<and> 1 \<le> priority t \<and> priority t \<le> 5
     \<and> 1 \<le> estimated_duration t \<and> estimated_duration t \<le> 1440
     \<and> length (description t) \<le> 500"

subsection \<open>scheduler/robot_scheduler.py\<close>

text \<open>
  A \<open>dict\<close> is an association list in insertion order: \<open>map_of\<close> is \<open>get\<close> and \<open>in\<close>,
  \<open>AList.update\<close> is \<open>d[k] = v\<close> (an existing key keeps its place, a new one goes to the
  end) and \<open>AList.delete\<close> is \<open>del d[k]\<close>.  A test \<open>if v:\<close> on an optional string fails for
  \<open>None\<close> and for the empty string.  The objects are the values stored: an object
  that the code reaches through the dictionary and mutates is written back under the key
  it was read from, so the robots that an iteration yields come with their keys.
\<close>

record scheduler =
  robots :: "(pystr \<times> robot) list"
  tasks :: "(pystr \<times> task) list"

definition register_robot :: "scheduler \<Rightarrow> robot \<Rightarrow> (error + unit) \<times> scheduler" where
  "register_robot self robot =
     (if map_of (robots self) (robot_id robot) \<noteq> None then (Inl SchedulerError, self)
      else (Inr (), self\<lparr>robots := AList.update (robot_id robot) robot (robots self)\<rparr>))"

definition unregister_robot :: "scheduler \<Rightarrow> pystr \<Rightarrow> bool \<times> scheduler" where
  "unregister_robot self rid =
     (case map_of (robots self) rid of
        None \<Rightarrow> (False, self)
      | Some robot \<Rightarrow>
          (let self1 =
             (case current_task robot of
                None \<Rightarrow> self
              | Some tid \<Rightarrow>
                  if tid = [] then self
                  else (case map_of (tasks self) tid of
                          None \<Rightarrow> self
                        | Some task \<Rightarrow>
                            self\<lparr>tasks := AList.update tid
                              (task\<lparr>status_t := PENDING, assigned_robot := None\<rparr>) (tasks self)\<rparr>))
           in (True, self1\<lparr>robots := AList.delete rid (robots self1)\<rparr>)))"

definition add_task :: "scheduler \<Rightarrow> task \<Rightarrow> scheduler" where
  "add_task self task = self\<lparr>tasks := AList.update (task_id task) task (tasks self)\<rparr>"

definition get_available_robots :: "scheduler \<Rightarrow> (pystr \<times> robot) list" where
  "get_available_robots self = filter (\<lambda>kr. is_available (snd kr)) (robots self)"

text \<open>\<open>min_distance\<close> starts at \<open>float("inf")\<close>, which every distance is below.\<close>

datatype bound = Infinity | Finite real

fun below :: "real \<Rightarrow> bound \<Rightarrow> bool" where
  "below d Infinity = True"
| "below d (Finite m) = (d < m)"

fun find_best_robot_loop ::
  "task \<Rightarrow> (pystr \<times> robot) list \<Rightarrow> (pystr \<times> robot) option \<Rightarrow> bound \<Rightarrow> (pystr \<times> robot) option" where
  "find_best_robot_loop task [] best_robot min_distance = best_robot"
| "find_best_robot_loop task (kr # rest) best_robot min_distance =
     (let distance = distance_to (position (snd kr)) (target_position task)
      in if below distance min_distance
         then find_best_robot_loop task rest (Some kr) (Finite distance)
         else find_best_robot_loop task rest best_robot min_distance)"

definition find_best_robot :: "scheduler \<Rightarrow> task \<Rightarrow> (pystr \<times> robot) option" where
  "find_best_robot self task =
     (let available_robots = get_available_robots self
      in if available_robots = [] then None
         else find_best_robot_loop task available_robots None Infinity)"

text \<open>Writing the robot and the task of an assignment back to where they are stored.\<close>

definition store :: "pystr \<Rightarrow> robot \<Rightarrow> task \<Rightarrow> scheduler \<Rightarrow> scheduler" where
  "store k robot task self =
     self\<lparr>robots := AList.update k robot (robots self),
          tasks := AList.update (task_id task) task (tasks self)\<rparr>"

text \<open>The handler \<open>except ValueError\<close> of \<open>assign_task\<close>.\<close>

definition assign_failed ::
  "error \<Rightarrow> pystr \<Rightarrow> robot \<Rightarrow> task \<Rightarrow> scheduler \<Rightarrow> (error + pystr option) \<times> scheduler" where
  "assign_failed e k robot task self =
     (if e = ValueError
      then (Inl SchedulerError, store k robot (task\<lparr>status_t := PENDING, assigned_robot := None\<rparr>) self)
      else (Inl e, store k robot task self))"

definition assign_task :: "scheduler \<Rightarrow> task \<Rightarrow> (error + pystr option) \<times> scheduler" where
  "assign_task self task =
     (let self1 = add_task self task
      in case find_best_robot self1 task of
           None \<Rightarrow> (Inr None, self1)
         | Some (k, best_robot) \<Rightarrow>
             (case robot_assign_task best_robot (task_id task) of
                (Inl e, robot1) \<Rightarrow> assign_failed e k robot1 task self1
              | (Inr u, robot1) \<Rightarrow>
                  (case assign_to_robot task (robot_id robot1) of
                     (Inl e, task1) \<Rightarrow> assign_failed e k robot1 task1 self1
                   | (Inr v, task1) \<Rightarrow> (Inr (Some (robot_id robot1)), store k robot1 task1 self1))))"

text \<open>The block that \<open>complete_task\<close> and \<open>fail_task\<close> both run to release the robot.\<close>

definition release_robot :: "scheduler \<Rightarrow> task \<Rightarrow> scheduler" where
  "release_robot self task =
     (case assigned_robot task of
        None \<Rightarrow> self
      | Some rid \<Rightarrow>
          if rid = [] then self
          else (case map_of (robots self) rid of
                  None \<Rightarrow> self
                | Some robot \<Rightarrow>
                    self\<lparr>robots := AList.update rid (robot_complete_task robot) (robots self)\<rparr>))"

definition complete_task :: "scheduler \<Rightarrow> pystr \<Rightarrow> (error + bool) \<times> scheduler" where
  "complete_task self tid =
     (case map_of (tasks self) tid of
        None \<Rightarrow> (Inl TaskNotFoundError, self)
      | Some task \<Rightarrow>
          (let self1 = release_robot self task
           in case complete task of
                (Inl e, task1) \<Rightarrow>
                  (if e = ValueError then Inr False else Inl e,
                   self1\<lparr>tasks := AList.update tid task1 (tasks self1)\<rparr>)
              | (Inr u, task1) \<Rightarrow> (Inr True, self1\<lparr>tasks := AList.update tid task1 (tasks self1)\<rparr>)))"

definition fail_task :: "scheduler \<Rightarrow> pystr \<Rightarrow> pystr \<Rightarrow> bool \<times> scheduler" where
  "fail_task self tid reason =
     (case map_of (tasks self) tid of
        None \<Rightarrow> (False, self)
      | Some task \<Rightarrow>
          (let self1 = release_robot self task
           in (True, self1\<lparr>tasks := AList.update tid (fail task reason) (tasks self1)\<rparr>)))"

text \<open>
  \<open>sorted(xs, key=f, reverse=True)\<close> is the built-in stable sort; with \<open>reverse\<close> it
  reverses the list, sorts it in ascending order of the key, and reverses the result.
\<close>

definition sorted_reverse :: "('a \<Rightarrow> int) \<Rightarrow> 'a list \<Rightarrow> 'a list" where
  "sorted_reverse key xs = rev (sort_key key (rev xs))"

definition get_pending_tasks :: "scheduler \<Rightarrow> task list" where
  "get_pending_tasks self =
     (let pending_tasks = filter is_pending (map snd (tasks self))
      in sorted_reverse priority pending_tasks)"

fun auto_assign_loop ::
  "task list \<Rightarrow> (pystr \<times> pystr) list \<Rightarrow> scheduler \<Rightarrow> (error + (pystr \<times> pystr) list) \<times> scheduler" where
  "auto_assign_loop [] assignments self = (Inr assignments, self)"
| "auto_assign_loop (task # rest) assignments self =
     (case assign_task self task of
        (Inl e, self1) \<Rightarrow>
          if is_SchedulerError e then auto_assign_loop rest assignments self1 else (Inl e, self1)
      | (Inr assigned, self1) \<Rightarrow>
          (case assigned of
             None \<Rightarrow> auto_assign_loop rest assignments self1
           | Some rid \<Rightarrow>
               if rid = [] then auto_assign_loop rest assignments self1
               else auto_assign_loop rest (AList.update (task_id task) rid assignments) self1))"

definition auto_assign_pending_tasks ::
  "scheduler \<Rightarrow> (error + (pystr \<times> pystr) list) \<times> scheduler" where
  "auto_assign_pending_tasks self =
     (let pending_tasks = get_pending_tasks self
      in auto_assign_loop pending_tasks [] self)"

subsection \<open>services/task_service.py\<close>

record task_service =
  service_tasks :: "(pystr \<times> task) list"

definition update_task_status :: "task_service \<Rightarrow> pystr \<Rightarrow> TaskStatus \<Rightarrow> bool \<times> task_service" where
  "update_task_status self tid status =
     (case map_of (service_tasks self) tid of
        None \<Rightarrow> (False, self)
      | Some task \<Rightarrow>
          (True, self\<lparr>service_tasks := AList.update tid (task\<lparr>status_t := status\<rparr>) (service_tasks self)\<rparr>))"

subsection \<open>A task driven through its own methods\<close>

datatype task_call = Assign_to_robot pystr | Start_execution | Complete | Fail pystr

fun call :: "task \<Rightarrow> task_call \<Rightarrow> (error + unit) \<times> task" where
  "call t (Assign_to_robot rid) = assign_to_robot t rid"
| "call t Start_execution = start_execution t"
| "call t Complete = complete t"
| "call t (Fail reason) = (Inr (), fail t reason)"

text \<open>A caller that makes the calls one after the other and catches what each raises;
  the result is the task after each call.\<close>

fun run_calls :: "task \<Rightarrow> task_call list \<Rightarrow> task list" where
  "run_calls t [] = []"
| "run_calls t (c # cs) = snd (call t c) # run_calls (snd (call t c)) cs"

text \<open>The life cycle as the specification words it: the status that a call leads to from a
  status, or \<open>None\<close> when the call is rejected there.\<close>

fun lifecycle :: "TaskStatus \<Rightarrow> task_call \<Rightarrow> TaskStatus option" where
  "lifecycle PENDING (Assign_to_robot rid) = Some ASSIGNED"
| "lifecycle ASSIGNED Start_execution = Some IN_PROGRESS"
| "lifecycle IN_PROGRESS Complete = Some COMPLETED"
| "lifecycle st (Fail reason) = Some FAILED"
| "lifecycle st c = None"

fun lifecycle_trace :: "TaskStatus \<Rightarrow> task_call list \<Rightarrow> TaskStatus list" where
  "lifecycle_trace st [] = []"
| "lifecycle_trace st (c # cs) =
     (case lifecycle st c of
        None \<Rightarrow> st # lifecycle_trace st cs
      | Some st' \<Rightarrow> st' # lifecycle_trace st' cs)"

subsection \<open>Scheduler states that the operations build\<close>

text \<open>
  Every insertion stores an object under its own identifier, and a dictionary holds a key
  once; robot identifiers have passed \<open>validate_robot_id\<close>.  In such a state the loop of
  \<open>auto_assign_pending_tasks\<close> meets every task of its snapshot as it is stored, since an
  assignment changes no other task.
\<close>

definition wf_scheduler :: "scheduler \<Rightarrow> bool" where
  "wf_scheduler s \<longleftrightarrow>
     distinct (map fst (robots s)) \<and> distinct (map fst (tasks s))
     \<and> (\<forall>kr\<in>set (robots s). robot_id (snd kr) = fst kr \<and> validate_robot_id (fst kr))
     \<and> (\<forall>kt\<in>set (tasks s). task_id (snd kt) = fst kt)"

text \<open>The distance that \<open>find_best_robot\<close> compares.\<close>

abbreviation distance_of :: "task \<Rightarrow> pystr \<times> robot \<Rightarrow> real" where
  "distance_of t kr \<equiv> distance_to (position (snd kr)) (target_position t)"

text \<open>The straight-line distance as the specification words it,
  \<open>sqrt((x1-x2)^2+(y1-y2)^2)\<close>, over the real numbers.\<close>

definition straight_line :: "position \<Rightarrow> position \<Rightarrow> real" where
  "straight_line p q = sqrt ((pos_x p - pos_x q)\<^sup>2 + (pos_y p - pos_y q)\<^sup>2)"

text \<open>The state after robot \<open>r\<close>, stored under \<open>k\<close>, has taken task \<open>t\<close>.\<close>

definition assigned_state :: "scheduler \<Rightarrow> pystr \<Rightarrow> robot \<Rightarrow> task \<Rightarrow> scheduler" where
  "assigned_state s k r t =
     \<lparr>robots = AList.update k (r\<lparr>current_task := Some (task_id t), status_r := BUSY\<rparr>) (robots s),
      tasks = AList.update (task_id t) (t\<lparr>assigned_robot := Some k, status_t := ASSIGNED\<rparr>) (tasks s)\<rparr>"

text \<open>What a run of \<open>auto_assign_pending_tasks\<close> from \<open>s\<close> to \<open>s'\<close> with result \<open>m\<close> has done
  with the pending task \<open>t\<close>.\<close>

definition outcome :: "scheduler \<Rightarrow> scheduler \<Rightarrow> (pystr \<times> pystr) list \<Rightarrow> task \<Rightarrow> bool" where
  "outcome s s' m t =
     (case map_of m (task_id t) of
        None \<Rightarrow> map_of (tasks s') (task_id t) = Some t
      | Some u \<Rightarrow>
          map_of (tasks s') (task_id t) = Some (t\<lparr>assigned_robot := Some u, status_t := ASSIGNED\<rparr>)
          \<and> (\<exists>r. (u, r) \<in> set (get_available_robots s)
                \<and> map_of (robots s') u = Some (r\<lparr>current_task := Some (task_id t), status_r := BUSY\<rparr>)))"

subsection \<open>Sample objects\<close>

definition origin :: position where
  "origin = \<lparr>pos_x = 0, pos_y = 0\<rparr>"

definition sample_robot :: "string \<Rightarrow> real \<Rightarrow> real \<Rightarrow> RobotStatus \<Rightarrow> real \<Rightarrow> robot" where
  "sample_robot rid px py st b =
     \<lparr>robot_id = ord_str rid, name = ord_str ''robot'', position = \<lparr>pos_x = px, pos_y = py\<rparr>,
      status_r = st, current_task = None, battery_level = b, created_at_r = 0\<rparr>"

definition sample_task :: "string \<Rightarrow> int \<Rightarrow> TaskStatus \<Rightarrow> task" where
  "sample_task tid p st =
     \<lparr>task_id = ord_str tid, task_type = DELIVERY, target_position = origin, priority = p,
      status_t = st, assigned_robot = None, created_at_t = 0, estimated_duration = 30,
      description = []\<rparr>"

text \<open>Five robots around the origin: \<open>R0\<close> has a battery of exactly 20, \<open>R1\<close> is 5 away,
  \<open>R2\<close> and \<open>R3\<close> are both 1 away, \<open>R4\<close> is charging.\<close>

definition fleet :: scheduler where
  "fleet = \<lparr>robots = [(ord_str ''R0'', sample_robot ''R0'' 0 0 IDLE 20),
                      (ord_str ''R1'', sample_robot ''R1'' 3 4 IDLE 100),
                      (ord_str ''R2'', sample_robot ''R2'' 0 1 IDLE 21),
                      (ord_str ''R3'', sample_robot ''R3'' 1 0 IDLE 80),
                      (ord_str ''R4'', sample_robot ''R4'' 0 0 CHARGING 90)],
             tasks = []\<rparr>"

text \<open>A task that is already assigned to \<open>R1\<close>.\<close>

definition reassigned :: task where
  "reassigned = (sample_task ''T1'' 1 ASSIGNED)\<lparr>assigned_robot := Some (ord_str ''R1'')\<rparr>"

definition queue :: scheduler where
  "queue = \<lparr>robots = [],
             tasks = [(ord_str ''T1'', sample_task ''T1'' 2 PENDING),
                      (ord_str ''T2'', sample_task ''T2'' 5 PENDING),
                      (ord_str ''T3'', sample_task ''T3'' 3 COMPLETED),
                      (ord_str ''T4'', sample_task ''T4'' 2 PENDING),
                      (ord_str ''T5'', sample_task ''T5'' 5 PENDING)]\<rparr>"

text \<open>Two available robots, one with a low battery, and three pending tasks.\<close>

definition depot :: scheduler where
  "depot = \<lparr>robots = [(ord_str ''R1'', sample_robot ''R1'' 3 4 IDLE 100),
                      (ord_str ''R2'', sample_robot ''R2'' 0 1 IDLE 15),
                      (ord_str ''R3'', sample_robot ''R3'' 1 0 IDLE 80)],
             tasks = [(ord_str ''T1'', sample_task ''T1'' 1 PENDING),
                      (ord_str ''T2'', sample_task ''T2'' 3 PENDING),
                      (ord_str ''T3'', sample_task ''T3'' 2 PENDING)]\<rparr>"

text \<open>The double that follows \<open>1\<close>, a double whose square underflows, and the distance
  from which a coordinate difference is seen.\<close>

definition above_one :: real where
  "above_one = 1 + 1 / 2 ^ 52"

definition tiny :: real where
  "tiny = 2 powi (- 600)"

definition nearby :: real where
  "nearby = 2 powi (- 537)"

text \<open>Two robots \<open>1000\<close> to the right of the origin, \<open>R1\<close> one unit in the last place
  higher than \<open>R2\<close>.\<close>

definition ridge :: scheduler where
  "ridge = \<lparr>robots = [(ord_str ''R1'', sample_robot ''R1'' 1000 above_one IDLE 100),
                      (ord_str ''R2'', sample_robot ''R2'' 1000 1 IDLE 100)],
             tasks = []\<rparr>"

text \<open>\<open>R1\<close> holds the completed task \<open>T1\<close>, \<open>R2\<close> holds the assigned task \<open>T2\<close>.\<close>

definition yard :: scheduler where
  "yard = \<lparr>robots = [(ord_str ''R1'', (sample_robot ''R1'' 0 0 BUSY 90)\<lparr>current_task := Some (ord_str ''T1'')\<rparr>),
                     (ord_str ''R2'', (sample_robot ''R2'' 5 5 BUSY 60)\<lparr>current_task := Some (ord_str ''T2'')\<rparr>)],
            tasks = [(ord_str ''T1'', (sample_task ''T1'' 1 COMPLETED)\<lparr>assigned_robot := Some (ord_str ''R1'')\<rparr>),
                     (ord_str ''T2'', (sample_task ''T2'' 4 ASSIGNED)\<lparr>assigned_robot := Some (ord_str ''R2'')\<rparr>)]\<rparr>"

definition registry :: task_service where
  "registry = \<lparr>service_tasks = [(ord_str ''T1'', (sample_task ''T1'' 1 COMPLETED)\<lparr>assigned_robot := Some (ord_str ''R1'')\<rparr>)]\<rparr>"

text \<open>A task in progress whose description is 500 times the letter \<open>A\<close>.\<close>

definition long_task :: task where
  "long_task = (sample_task ''T1'' 1 IN_PROGRESS)\<lparr>description := replicate 500 65\<rparr>"

section \<open>Task life cycle\<close>

lemmas sample_defs = origin_def sample_robot_def sample_task_def ord_str_def

text \<open>
  C5.  Whatever calls are made on a task, and in whatever order, each call moves the status
  as the life cycle says: \<open>assign_to_robot\<close> succeeds from \<open>PENDING\<close> only and leads to
  \<open>ASSIGNED\<close>, \<open>start_execution\<close> from \<open>ASSIGNED\<close> only to \<open>IN_PROGRESS\<close>, \<open>complete\<close> from
  \<open>IN_PROGRESS\<close> only to \<open>COMPLETED\<close>, and \<open>fail\<close> always succeeds and leads to \<open>FAILED\<close>.
  Every other call raises \<open>ValueError\<close> and leaves the task as it was.
\<close>

theorem task_lifecycle:
  "(case lifecycle (status_t t) c of
      None \<Rightarrow> call t c = (Inl ValueError, t)
    | Some st \<Rightarrow> fst (call t c) = Inr () \<and> status_t (snd (call t c)) = st)
   \<and> map status_t (run_calls t cs) = lifecycle_trace (status_t t) cs"
proof
  show step: "case lifecycle (status_t t) c of
      None \<Rightarrow> call t c = (Inl ValueError, t)
    | Some st \<Rightarrow> fst (call t c) = Inr () \<and> status_t (snd (call t c)) = st" for t c
    by (cases c; cases "status_t t")
       (simp_all add: assign_to_robot_def start_execution_def complete_def is_pending_def
          fail_def Let_def)
  show "map status_t (run_calls t cs) = lifecycle_trace (status_t t) cs"
  proof (induction cs arbitrary: t)
    case Nil
    show ?case by simp
  next
    case (Cons c cs)
    show ?case
      using step [of t c] Cons.IH [of "snd (call t c)"]
      by (simp split: option.splits)
  qed
qed

theorem task_lifecycle_witness:
  "call (sample_task ''T1'' 1 PENDING) Complete = (Inl ValueError, sample_task ''T1'' 1 PENDING)
   \<and> map status_t (run_calls (sample_task ''T1'' 1 PENDING)
        [Start_execution, Assign_to_robot (ord_str ''R1''), Assign_to_robot (ord_str ''R2''),
         Start_execution, Complete, Complete, Fail (ord_str ''x''), Start_execution])
     = [PENDING, ASSIGNED, ASSIGNED, IN_PROGRESS, COMPLETED, COMPLETED, FAILED, FAILED]"
  using task_lifecycle [of "sample_task ''T1'' 1 PENDING" Complete
        "[Start_execution, Assign_to_robot (ord_str ''R1''), Assign_to_robot (ord_str ''R2''),
         Start_execution, Complete, Complete, Fail (ord_str ''x''), Start_execution]"]
  by (simp add: sample_task_def)

section \<open>Rounding to double precision\<close>

lemma round_even_of_int [simp]: "round_even (of_int n) = n"
  by (simp add: round_even_def)

lemma round_even_down: "of_int f \<le> y \<Longrightarrow> y < of_int f + 1 / 2 \<Longrightarrow> round_even y = f"
proof -
  assume a: "of_int f \<le> y" "y < of_int f + 1 / 2"
  then have "\<lfloor>y\<rfloor> = f" by linarith
  with a show ?thesis by (simp add: round_even_def)
qed

lemma round_even_up: "of_int f - 1 / 2 < y \<Longrightarrow> y \<le> of_int f \<Longrightarrow> round_even y = f"
proof -
  assume a: "of_int f - 1 / 2 < y" "y \<le> of_int f"
  show ?thesis
  proof (cases "y = of_int f")
    case True
    then show ?thesis by simp
  next
    case False
    with a have "\<lfloor>y\<rfloor> = f - 1" by linarith
    with a False show ?thesis by (simp add: round_even_def)
  qed
qed

lemma round_even_minus: "round_even (- y) = - round_even y"
proof (cases "y = of_int \<lfloor>y\<rfloor>")
  case True
  then obtain n where "y = of_int n" ..
  then have "- y = of_int (- n)" by simp
  then show ?thesis
    using \<open>y = of_int n\<close> by (metis round_even_of_int)
next
  case False
  then have f: "\<lfloor>- y\<rfloor> = - \<lfloor>y\<rfloor> - 1"
    by linarith
  have d: "0 < y - of_int \<lfloor>y\<rfloor>" "y - of_int \<lfloor>y\<rfloor> < 1"
    using False by linarith+
  show ?thesis
    using d by (auto simp add: round_even_def f Let_def)
qed

lemma ulp_pos: "0 < ulp x"
  by (simp add: ulp_def)

lemma ulp_minus [simp]: "ulp (- x) = ulp x"
  by (simp add: ulp_def)

lemma round_double_0 [simp]: "round_double 0 = 0"
  by (simp add: round_double_def)

lemma round_double_minus: "round_double (- x) = - round_double x"
  by (simp add: round_double_def round_even_minus)

lemma floor_log2: "2 powi e \<le> \<bar>x\<bar> \<Longrightarrow> \<bar>x\<bar> < 2 powi (e + 1) \<Longrightarrow> \<lfloor>log 2 \<bar>x\<bar>\<rfloor> = e"
proof -
  assume a: "2 powi e \<le> \<bar>x\<bar>" "\<bar>x\<bar> < 2 powi (e + 1)"
  have "0 < (2::real) powi e" by simp
  with a have p: "0 < \<bar>x\<bar>" by linarith
  have "(2::real) powr real_of_int e = 2 powi e" "(2::real) powr (real_of_int e + 1) = 2 powi (e + 1)"
    using powr_real_of_int' [of "2::real" e] powr_real_of_int' [of "2::real" "e + 1"] by simp_all
  with a show ?thesis
    using floor_log_eq_powr_iff [of "\<bar>x\<bar>" 2 e] p by simp
qed

lemma ulp_normal:
  "2 powi e \<le> \<bar>x\<bar> \<Longrightarrow> \<bar>x\<bar> < 2 powi (e + 1) \<Longrightarrow> - 1022 \<le> e \<Longrightarrow> ulp x = 2 powi (e - 52)"
  by (simp add: ulp_def floor_log2)

lemma ulp_subnormal:
  assumes "x \<noteq> 0" and "\<bar>x\<bar> < 2 powi (- 1022)"
  shows "ulp x = 2 powi (- 1074)"
proof -
  have "\<lfloor>log 2 \<bar>x\<bar>\<rfloor> < - 1022"
  proof (rule ccontr)
    assume "\<not> \<lfloor>log 2 \<bar>x\<bar>\<rfloor> < - 1022"
    then have "real_of_int (- 1022) \<le> log 2 \<bar>x\<bar>" by linarith
    then have "2 powr real_of_int (- 1022) \<le> \<bar>x\<bar>"
      using assms(1) by (simp add: le_log_iff del: of_int_minus)
    moreover have "(2::real) powr real_of_int (- 1022) = 2 powi (- 1022)"
      using powr_real_of_int' [of "2::real" "- 1022"] by simp
    ultimately show False using assms(2) by simp
  qed
  then show ?thesis by (simp add: ulp_def max_def)
qed

lemma round_double_grid: "x = of_int m * ulp x \<Longrightarrow> round_double x = x"
proof -
  assume a: "x = of_int m * ulp x"
  have "x / ulp x = of_int m"
    using ulp_pos [of x] a by (metis less_numeral_extra(3) nonzero_eq_divide_eq)
  then show ?thesis
    using a by (simp add: round_double_def)
qed

lemma round_double_of_int:
  assumes "\<bar>n\<bar> < 2 ^ 53"
  shows "round_double (of_int n) = of_int n"
proof (cases "n = 0")
  case True
  then show ?thesis by simp
next
  case False
  define e where "e = \<lfloor>log 2 \<bar>real_of_int n\<bar>\<rfloor>"
  have one: "1 \<le> \<bar>real_of_int n\<bar>"
    using False by (simp flip: of_int_abs)
  have lt: "\<bar>real_of_int n\<bar> < 2 ^ 53"
    using assms by (metis of_int_abs of_int_less_numeral_power_cancel_iff)
  have "0 \<le> log 2 \<bar>real_of_int n\<bar>"
    using one by simp
  then have e0: "0 \<le> e"
    by (simp add: e_def)
  have "log 2 \<bar>real_of_int n\<bar> < log 2 (2 ^ 53)"
    using one lt by (subst log_less_cancel_iff) simp_all
  moreover have "log 2 (2 ^ 53) = real 53"
    by (rule log_pow_cancel) simp_all
  ultimately have "log 2 \<bar>real_of_int n\<bar> < 53"
    by (simp only: of_nat_numeral)
  then have e52: "e \<le> 52"
    unfolding e_def by linarith
  have u: "ulp (of_int n) = 2 powi (e - 52)"
    using e0 by (simp add: ulp_def e_def max_def)
  have "e - 52 = - (52 - e)"
    by simp
  then have "(2::real) powi (e - 52) = inverse (2 powi (52 - e))"
    by (simp only: power_int_minus)
  moreover have "(2::real) powi (52 - e) = 2 ^ nat (52 - e)"
    using e52 by (intro power_int_nonneg_exp) simp
  ultimately have "ulp (of_int n) = inverse (2 ^ nat (52 - e))"
    by (simp only: u)
  then have "of_int (n * 2 ^ nat (52 - e)) * ulp (of_int n) = real_of_int n"
    by simp
  then have "real_of_int n = of_int (n * 2 ^ nat (52 - e)) * ulp (of_int n)"
    by (rule sym)
  then show ?thesis
    by (rule round_double_grid)
qed

lemma round_double_numeral [simp]:
  "(numeral k :: real) < 9007199254740992 \<Longrightarrow> round_double (numeral k) = numeral k"
proof -
  assume "(numeral k :: real) < 9007199254740992"
  then have "\<bar>numeral k :: int\<bar> < 2 ^ 53"
    by (simp flip: of_int_less_iff [where 'a = real])
  from round_double_of_int [OF this] show ?thesis by simp
qed

lemma round_double_1 [simp]: "round_double 1 = 1"
  using round_double_of_int [of 1] by simp

lemma abs_divide_half:
  fixes x p q :: real
  shows "0 < q \<Longrightarrow> p * 2 = q \<Longrightarrow> \<bar>x\<bar> < p \<Longrightarrow> \<bar>x / q\<bar> < 1 / 2"
  by (simp add: abs_divide field_simps)

lemma round_even_small: "\<bar>y\<bar> < 1 / 2 \<Longrightarrow> round_even y = 0"
proof (cases "0 \<le> y")
  case True
  assume "\<bar>y\<bar> < 1 / 2"
  with True show ?thesis
    by (intro round_even_down) simp_all
next
  case False
  assume "\<bar>y\<bar> < 1 / 2"
  with False show ?thesis
    by (intro round_even_up) simp_all
qed

lemma round_double_underflow:
  assumes "\<bar>x\<bar> < 2 powi (- 1075)"
  shows "round_double x = 0"
proof (cases "x = 0")
  case True
  then show ?thesis by simp
next
  case False
  define p :: real where "p = 2 powi (- 1075)"
  define q :: real where "q = 2 powi (- 1074)"
  have q0: "0 < q"
    unfolding q_def by (rule zero_less_power_int) simp
  have ne: "(2::real) \<noteq> 0 \<or> (- 1074 :: int) \<noteq> 0"
    by simp
  have "(- 1074 :: int) - 1 = - 1075"
    by simp
  with power_int_minus_mult [OF ne] have pq: "p * 2 = q"
    unfolding p_def q_def by (simp only: )
  have "(2::real) powi (- 1075) < 2 powi (- 1022)"
    by (rule power_int_strict_increasing) simp_all
  with assms have "\<bar>x\<bar> < 2 powi (- 1022)"
    by (rule less_trans)
  from ulp_subnormal [OF False this] have u: "ulp x = q"
    by (simp only: q_def)
  have "\<bar>x\<bar> < p"
    using assms by (simp only: p_def)
  with q0 pq have "\<bar>x / q\<bar> < 1 / 2"
    by (rule abs_divide_half)
  then have "round_even (x / q) = 0"
    by (rule round_even_small)
  then show ?thesis
    by (simp add: round_double_def u)
qed

lemma round_double_nearest_down:
  assumes "2 powi e \<le> \<bar>x\<bar>" and "\<bar>x\<bar> < 2 powi (e + 1)" and "- 1022 \<le> e"
    and "of_int f \<le> x / 2 powi (e - 52)" and "x / 2 powi (e - 52) < of_int f + 1 / 2"
  shows "round_double x = of_int f * 2 powi (e - 52)"
proof -
  have "0 < (2::real) powi e"
    by (rule zero_less_power_int) simp
  from this assms(1) have "0 < \<bar>x\<bar>" by (rule less_le_trans)
  then have "x \<noteq> 0" by simp
  moreover have "ulp x = 2 powi (e - 52)"
    using assms(1-3) by (rule ulp_normal)
  moreover have "round_even (x / 2 powi (e - 52)) = f"
    using assms(4,5) by (rule round_even_down)
  ultimately show ?thesis
    by (simp add: round_double_def)
qed

lemma sqrt_25: "sqrt 25 = 5"
  using real_sqrt_abs [of 5] by simp

lemmas float_defs = distance_to_def float_sub_def float_add_def float_pow2_def float_pow_half_def

lemma distance_to_3_4: "distance_to \<lparr>pos_x = 3, pos_y = 4\<rparr> \<lparr>pos_x = 0, pos_y = 0\<rparr> = 5"
  by (simp add: float_defs sqrt_25)

lemma distance_to_0_1: "distance_to \<lparr>pos_x = 0, pos_y = 1\<rparr> \<lparr>pos_x = 0, pos_y = 0\<rparr> = 1"
  by (simp add: float_defs)

lemma float_sub_above_one: "float_sub above_one 0 = above_one"
  using round_double_nearest_down [of 0 "1 + 1 / 2 ^ 52" "2 ^ 52 + 1"]
  by (simp add: float_sub_def above_one_def)

lemma float_pow2_above_one: "float_pow2 above_one = 1 + 1 / 2 ^ 51"
  using round_double_nearest_down [of 0 "(1 + 1 / 2 ^ 52)\<^sup>2" "2 ^ 52 + 2"]
  by (simp add: float_pow2_def above_one_def power2_eq_square)

lemma float_add_above_one: "float_add 1000000 (1 + 1 / 2 ^ 51) = 1000001"
  using round_double_nearest_down [of 19 "1000000 + (1 + 1 / 2 ^ 51)" "1000001 * 2 ^ 33"]
  by (simp add: float_add_def)

lemma distance_to_above_one: "distance_to \<lparr>pos_x = 1000, pos_y = above_one\<rparr> \<lparr>pos_x = 0, pos_y = 0\<rparr>
   = float_pow_half 1000001"
proof -
  have "float_sub 1000 0 = 1000" "float_pow2 1000 = 1000000"
    by (simp_all add: float_sub_def float_pow2_def)
  then show ?thesis
    by (simp only: distance_to_def position.select_convs float_sub_above_one
        float_pow2_above_one float_add_above_one)
qed

lemma distance_to_level: "distance_to \<lparr>pos_x = 1000, pos_y = 1\<rparr> \<lparr>pos_x = 0, pos_y = 0\<rparr>
   = float_pow_half 1000001"
  by (simp add: distance_to_def float_sub_def float_add_def float_pow2_def)

lemma float_sub_tiny: "float_sub tiny 0 = tiny"
proof -
  have "(2::real) powi (- 600) < 2 powi (- 600 + 1)"
    by (rule power_int_strict_increasing) simp_all
  then have u: "ulp tiny = 2 powi (- 600 - 52)"
    unfolding tiny_def by (intro ulp_normal) simp_all
  have "(2::real) powi (52 + (- 600 - 52)) = 2 powi 52 * 2 powi (- 600 - 52)"
    by (rule power_int_add) simp
  moreover have "(52::int) + (- 600 - 52) = - 600"
    by simp
  ultimately have "tiny = of_int (2 ^ 52) * ulp tiny"
    unfolding u by (simp only: tiny_def power_int_numeral of_int_power of_int_numeral)
  then have "round_double tiny = tiny"
    by (rule round_double_grid)
  then show ?thesis
    by (simp add: float_sub_def)
qed

lemma float_pow2_tiny: "float_pow2 tiny = 0"
proof -
  have "tiny\<^sup>2 = 2 powi (- 600) * 2 powi (- 600)"
    by (simp only: tiny_def power2_eq_square)
  also have "\<dots> = 2 powi (- 600 + - 600)"
    by (rule power_int_add [symmetric]) simp
  finally have t: "tiny\<^sup>2 = 2 powi (- 600 + - 600)" .
  have "(2::real) powi (- 600 + - 600) < 2 powi (- 1075)"
    by (rule power_int_strict_increasing) simp_all
  moreover have "0 \<le> tiny\<^sup>2"
    by (rule zero_le_power2)
  ultimately have "\<bar>tiny\<^sup>2\<bar> < 2 powi (- 1075)"
    by (simp only: t abs_of_nonneg)
  then show ?thesis
    unfolding float_pow2_def by (rule round_double_underflow)
qed

lemma tiny_pos: "0 < tiny"
  unfolding tiny_def by (rule zero_less_power_int) simp

lemma distance_to_tiny: "distance_to \<lparr>pos_x = tiny, pos_y = 0\<rparr> \<lparr>pos_x = 0, pos_y = 0\<rparr> = 0"
proof -
  have "float_sub 0 0 = 0" "float_pow2 0 = 0" "float_add 0 0 = 0" "float_pow_half 0 = 0"
    by (simp_all add: float_sub_def float_pow2_def float_add_def float_pow_half_def)
  then show ?thesis
    by (simp only: distance_to_def position.select_convs float_sub_tiny float_pow2_tiny)
qed

lemma round_even_eq_0_iff: "round_even y = 0 \<longleftrightarrow> \<bar>y\<bar> \<le> 1 / 2"
proof
  assume z: "round_even y = 0"
  have f: "of_int \<lfloor>y\<rfloor> \<le> y" "y < of_int \<lfloor>y\<rfloor> + 1"
    by linarith+
  consider "y - of_int \<lfloor>y\<rfloor> < 1 / 2" | "y - of_int \<lfloor>y\<rfloor> > 1 / 2" | "y - of_int \<lfloor>y\<rfloor> = 1 / 2"
    by linarith
  then show "\<bar>y\<bar> \<le> 1 / 2"
  proof cases
    case 1
    with z have "\<lfloor>y\<rfloor> = 0" by (simp add: round_even_def)
    with 1 f show ?thesis by simp
  next
    case 2
    with z have "\<lfloor>y\<rfloor> = - 1" by (simp add: round_even_def)
    with 2 f show ?thesis by simp
  next
    case 3
    with z have "\<lfloor>y\<rfloor> = 0 \<or> \<lfloor>y\<rfloor> = - 1"
      by (simp add: round_even_def Let_def split: if_splits)
    with 3 show ?thesis by auto
  qed
next
  assume a: "\<bar>y\<bar> \<le> 1 / 2"
  consider "\<bar>y\<bar> < 1 / 2" | "y = 1 / 2" | "y = - 1 / 2"
    using a by linarith
  then show "round_even y = 0"
  proof cases
    case 1
    then show ?thesis by (rule round_even_small)
  next
    case 2
    then have "\<lfloor>y\<rfloor> = 0" by linarith
    with 2 show ?thesis by (simp add: round_even_def)
  next
    case 3
    then have "\<lfloor>y\<rfloor> = - 1" by linarith
    with 3 show ?thesis by (simp add: round_even_def)
  qed
qed

lemma round_even_nonneg: "0 \<le> y \<Longrightarrow> 0 \<le> round_even y"
proof -
  assume "0 \<le> y"
  then have "0 \<le> \<lfloor>y\<rfloor>" by simp
  then show ?thesis by (simp add: round_even_def Let_def)
qed

lemma round_double_nonneg: "0 \<le> x \<Longrightarrow> 0 \<le> round_double x"
proof -
  assume "0 \<le> x"
  then have "0 \<le> x / ulp x"
    using ulp_pos [of x] by simp
  then have "0 \<le> round_even (x / ulp x)"
    by (rule round_even_nonneg)
  then show ?thesis
    using ulp_pos [of x] by (simp add: round_double_def)
qed

lemma least_pos: "0 < least"
  unfolding least_def by (rule zero_less_power_int) simp

lemma half_least_double: "half_least * 2 = least"
proof -
  have ne: "(2::real) \<noteq> 0 \<or> (- 1074 :: int) \<noteq> 0"
    by simp
  have "(- 1074 :: int) - 1 = - 1075"
    by simp
  with power_int_minus_mult [OF ne] show ?thesis
    unfolding half_least_def least_def by (simp only: )
qed

lemma half_least_less: "half_least < least" "0 < half_least" "half_least < 1"
proof -
  show "half_least < least"
    using half_least_double least_pos by linarith
  show "0 < half_least"
    using half_least_double least_pos by linarith
  have "(2::real) powi (- 1075) < 2 powi 0"
    by (rule power_int_strict_increasing) simp_all
  then show "half_least < 1"
    by (simp only: half_least_def power_int_0_right)
qed

lemma ulp_ge_least: "least \<le> ulp x"
  unfolding ulp_def least_def by (rule power_int_increasing) simp_all

lemma power_int_floor_log_le:
  assumes "x \<noteq> 0"
  shows "2 powi \<lfloor>log 2 \<bar>x\<bar>\<rfloor> \<le> \<bar>x\<bar>"
proof -
  have "2 powr real_of_int \<lfloor>log 2 \<bar>x\<bar>\<rfloor> \<le> \<bar>x\<bar>"
    using floor_log_eq_powr_iff [of "\<bar>x\<bar>" 2 "\<lfloor>log 2 \<bar>x\<bar>\<rfloor>"] assms by simp
  moreover have "(2::real) powr real_of_int \<lfloor>log 2 \<bar>x\<bar>\<rfloor> = 2 powi \<lfloor>log 2 \<bar>x\<bar>\<rfloor>"
    by (rule powr_real_of_int') simp_all
  ultimately show ?thesis by simp
qed

lemma round_double_eq_0_iff: "round_double x = 0 \<longleftrightarrow> \<bar>x\<bar> \<le> half_least"
proof (cases "x = 0")
  case True
  then show ?thesis using half_least_less(2) by simp
next
  case False
  have z: "round_double x = 0 \<longleftrightarrow> \<bar>x\<bar> \<le> ulp x / 2"
  proof -
    have "round_double x = 0 \<longleftrightarrow> round_even (x / ulp x) = 0"
      using False ulp_pos [of x] by (simp add: round_double_def)
    also have "\<dots> \<longleftrightarrow> \<bar>x / ulp x\<bar> \<le> 1 / 2"
      by (rule round_even_eq_0_iff)
    also have "\<dots> \<longleftrightarrow> \<bar>x\<bar> \<le> ulp x / 2"
      using ulp_pos [of x] by (simp add: abs_divide field_simps)
    finally show ?thesis .
  qed
  show ?thesis
  proof
    assume "round_double x = 0"
    with z have le: "\<bar>x\<bar> \<le> ulp x / 2" by simp
    have "\<lfloor>log 2 \<bar>x\<bar>\<rfloor> < - 1022"
    proof (rule ccontr)
      assume "\<not> \<lfloor>log 2 \<bar>x\<bar>\<rfloor> < - 1022"
      then have "max \<lfloor>log 2 \<bar>x\<bar>\<rfloor> (- 1022) = \<lfloor>log 2 \<bar>x\<bar>\<rfloor>"
        by linarith
      then have u: "ulp x = 2 powi (\<lfloor>log 2 \<bar>x\<bar>\<rfloor> - 52)"
        by (simp only: ulp_def)
      have "(2::real) powi (\<lfloor>log 2 \<bar>x\<bar>\<rfloor> - 52) \<le> 2 powi \<lfloor>log 2 \<bar>x\<bar>\<rfloor>"
        by (rule power_int_increasing) simp_all
      from this power_int_floor_log_le [OF False] have "ulp x \<le> \<bar>x\<bar>"
        unfolding u by (rule order_trans)
      with le ulp_pos [of x] show False by linarith
    qed
    then have "max \<lfloor>log 2 \<bar>x\<bar>\<rfloor> (- 1022) = - 1022"
      by linarith
    moreover have "(- 1022 :: int) - 52 = - 1074"
      by simp
    ultimately have "ulp x = least"
      by (simp only: ulp_def least_def)
    with le half_least_double show "\<bar>x\<bar> \<le> half_least"
      by linarith
  next
    assume a: "\<bar>x\<bar> \<le> half_least"
    have "least \<le> ulp x" by (rule ulp_ge_least)
    with a half_least_double have "\<bar>x\<bar> \<le> ulp x / 2"
      by linarith
    with z show "round_double x = 0" by simp
  qed
qed

lemma round_double_below_least:
  assumes "0 \<le> round_double z" and "round_double z < least"
  shows "round_double z = 0"
proof (cases "z = 0")
  case True
  then show ?thesis by simp
next
  case False
  define k where "k = round_even (z / ulp z)"
  have r: "round_double z = of_int k * ulp z"
    using False by (simp add: round_double_def k_def)
  have "k < 1"
  proof (rule ccontr)
    assume "\<not> k < 1"
    then have "1 \<le> real_of_int k" by simp
    then have "ulp z \<le> of_int k * ulp z"
      using ulp_pos [of z] by (simp add: mult_le_cancel_right1)
    with ulp_ge_least [of z] assms(2) show False
      unfolding r by linarith
  qed
  moreover have "0 \<le> k"
  proof (rule ccontr)
    assume "\<not> 0 \<le> k"
    then have "real_of_int k < 0" by simp
    then have "of_int k * ulp z < 0"
      using ulp_pos [of z] by (simp add: mult_neg_pos)
    with assms(1) show False
      unfolding r by linarith
  qed
  ultimately have "k = 0" by simp
  then show ?thesis by (simp add: r)
qed

lemma distance_to_eq_0_iff:
  "distance_to p q = 0 \<longleftrightarrow>
     (float_sub (pos_x p) (pos_x q))\<^sup>2 \<le> half_least \<and> (float_sub (pos_y p) (pos_y q))\<^sup>2 \<le> half_least"
proof -
  define A where "A = float_pow2 (float_sub (pos_x p) (pos_x q))"
  define B where "B = float_pow2 (float_sub (pos_y p) (pos_y q))"
  define S where "S = float_add A B"
  have d: "distance_to p q = round_double (sqrt S)"
    by (simp add: distance_to_def float_pow_half_def S_def A_def B_def)
  have A0: "0 \<le> A" and B0: "0 \<le> B"
    unfolding A_def B_def float_pow2_def by (rule round_double_nonneg, rule zero_le_power2)+
  then have S0: "0 \<le> S"
    unfolding S_def float_add_def by (intro round_double_nonneg) simp
  have small: "v = 0" if "0 \<le> v" "v \<le> half_least" "v = round_double w" for v w
    using that half_least_less(1) round_double_below_least [of w] by simp
  have 1: "distance_to p q = 0 \<longleftrightarrow> S = 0"
  proof
    assume "distance_to p q = 0"
    then have "sqrt S \<le> half_least"
      using S0 by (simp add: d round_double_eq_0_iff)
    moreover have "S \<le> sqrt S"
    proof -
      have "sqrt S \<le> 1"
        using \<open>sqrt S \<le> half_least\<close> half_least_less(3) by linarith
      then have "sqrt S * sqrt S \<le> sqrt S * 1"
        using S0 by (intro mult_left_mono) simp_all
      then show ?thesis using S0 by simp
    qed
    ultimately have "S \<le> half_least" by linarith
    with S0 show "S = 0"
      by (rule small) (simp add: S_def float_add_def)
  next
    assume "S = 0"
    then show "distance_to p q = 0" by (simp add: d)
  qed
  have 2: "S = 0 \<longleftrightarrow> A = 0 \<and> B = 0"
  proof
    assume "S = 0"
    then have "A + B \<le> half_least"
      using A0 B0 by (simp add: S_def float_add_def round_double_eq_0_iff)
    with A0 B0 have "A \<le> half_least" "B \<le> half_least"
      by linarith+
    with A0 B0 show "A = 0 \<and> B = 0"
      by (auto intro: small simp add: A_def B_def float_pow2_def)
  next
    assume "A = 0 \<and> B = 0"
    then show "S = 0" by (simp add: S_def float_add_def)
  qed
  have 3: "A = 0 \<longleftrightarrow> (float_sub (pos_x p) (pos_x q))\<^sup>2 \<le> half_least"
       "B = 0 \<longleftrightarrow> (float_sub (pos_y p) (pos_y q))\<^sup>2 \<le> half_least"
    by (simp_all add: A_def B_def float_pow2_def round_double_eq_0_iff)
  from 1 2 3 show ?thesis by simp
qed

lemma distance_to_commute: "distance_to p q = distance_to q p"
proof -
  have "float_sub a b = - float_sub b a" for a b
    using round_double_minus [of "b - a"] by (simp add: float_sub_def)
  then have "float_pow2 (float_sub a b) = float_pow2 (float_sub b a)" for a b
    by (metis float_pow2_def power2_minus)
  then show ?thesis
    by (simp add: distance_to_def)
qed

lemma distance_to_same: "pos_x p = pos_x q \<Longrightarrow> pos_y p = pos_y q \<Longrightarrow> distance_to p q = 0"
  by (simp add: distance_to_def float_sub_def float_pow2_def float_add_def float_pow_half_def)

lemma round_even_error: "\<bar>of_int (round_even y) - y\<bar> \<le> 1 / 2"
proof -
  have "of_int \<lfloor>y\<rfloor> \<le> y" "y < of_int \<lfloor>y\<rfloor> + 1"
    by linarith+
  then show ?thesis
    by (auto simp add: round_even_def Let_def)
qed

lemma round_double_error: "\<bar>round_double x - x\<bar> \<le> ulp x / 2"
proof (cases "x = 0")
  case True
  then show ?thesis using ulp_pos [of 0] by simp
next
  case False
  have "round_double x - x = (of_int (round_even (x / ulp x)) - x / ulp x) * ulp x"
    using False ulp_pos [of x] by (simp add: round_double_def field_simps)
  then have "\<bar>round_double x - x\<bar> = \<bar>of_int (round_even (x / ulp x)) - x / ulp x\<bar> * ulp x"
    using ulp_pos [of x] by (simp add: abs_mult)
  also have "\<dots> \<le> 1 / 2 * ulp x"
    using round_even_error [of "x / ulp x"] ulp_pos [of x] by (intro mult_right_mono) simp_all
  finally show ?thesis by simp
qed

lemma ulp_le:
  assumes "x \<noteq> 0" and "\<bar>x\<bar> \<le> 2 powi k" and "- 1022 \<le> k"
  shows "ulp x \<le> 2 powi (k - 52)"
proof -
  have "\<lfloor>log 2 \<bar>x\<bar>\<rfloor> \<le> k"
  proof (rule ccontr)
    assume "\<not> \<lfloor>log 2 \<bar>x\<bar>\<rfloor> \<le> k"
    then have "k < \<lfloor>log 2 \<bar>x\<bar>\<rfloor>" by simp
    then have "(2::real) powi k < 2 powi \<lfloor>log 2 \<bar>x\<bar>\<rfloor>"
      by (rule power_int_strict_increasing) simp
    with power_int_floor_log_le [OF assms(1)] assms(2) show False
      by linarith
  qed
  with assms(3) have "max \<lfloor>log 2 \<bar>x\<bar>\<rfloor> (- 1022) - 52 \<le> k - 52"
    by simp
  then show ?thesis
    unfolding ulp_def by (rule power_int_increasing) simp
qed

lemma round_double_error_bound:
  assumes "\<bar>x\<bar> \<le> 2 ^ k"
  shows "\<bar>round_double x - x\<bar> \<le> 2 ^ k / 2 ^ 53"
proof (cases "x = 0")
  case True
  then show ?thesis by simp
next
  case False
  have "\<bar>x\<bar> \<le> 2 powi int k"
    using assms by simp
  from ulp_le [OF False this] have "ulp x \<le> 2 powi (int k - 52)"
    by simp
  also have "(2::real) powi (int k - 52) = 2 powi int k / 2 powi 52"
    by (rule power_int_diff) simp
  finally have "ulp x \<le> 2 ^ k / 2 ^ 52"
    by simp
  with round_double_error [of x] show ?thesis
    by simp
qed

lemma error_chain:
  fixes a b c :: real
  assumes "\<bar>a - b\<bar> \<le> u" and "\<bar>b - c\<bar> \<le> v" and "u + v \<le> w"
  shows "\<bar>a - c\<bar> \<le> w"
  using assms by linarith

lemma square_error:
  assumes "\<bar>a\<bar> \<le> 1000" and "\<bar>b\<bar> \<le> 1000"
  shows "\<bar>float_pow2 (float_sub a b) - (a - b)\<^sup>2\<bar> \<le> 1 / 2 ^ 29"
    and "0 \<le> float_pow2 (float_sub a b)"
    and "float_pow2 (float_sub a b) \<le> 2 ^ 23"
proof -
  define d where "d = a - b"
  define d' where "d' = round_double d"
  define A where "A = round_double (d'\<^sup>2)"
  have A: "float_pow2 (float_sub a b) = A"
    by (simp add: float_pow2_def float_sub_def A_def d'_def d_def)
  have d: "\<bar>d\<bar> \<le> 2000"
    using assms unfolding d_def by linarith
  then have "\<bar>d\<bar> \<le> 2 ^ 11" by simp
  from round_double_error_bound [OF this] have e1: "\<bar>d' - d\<bar> \<le> 1 / 2 ^ 42"
    by (simp add: d'_def)
  have "1 / 2 ^ 42 \<le> (1::real)"
    by simp
  with e1 d have d': "\<bar>d'\<bar> \<le> 2001"
    by linarith
  have "d'\<^sup>2 - d\<^sup>2 = (d' - d) * (d' + d)"
    by (simp add: power2_eq_square algebra_simps)
  then have "\<bar>d'\<^sup>2 - d\<^sup>2\<bar> = \<bar>d' - d\<bar> * \<bar>d' + d\<bar>"
    by (simp add: abs_mult)
  also have "\<dots> \<le> 1 / 2 ^ 42 * 4096"
    using e1 d d' by (intro mult_mono) simp_all
  finally have e2: "\<bar>d'\<^sup>2 - d\<^sup>2\<bar> \<le> 1 / 2 ^ 30"
    by simp
  have "d'\<^sup>2 = \<bar>d'\<bar> * \<bar>d'\<bar>"
    by (simp add: power2_eq_square)
  also have "\<dots> \<le> 2001 * 2001"
    using d' by (intro mult_mono) simp_all
  finally have s: "d'\<^sup>2 \<le> 4004001"
    by simp
  then have "\<bar>d'\<^sup>2\<bar> \<le> 2 ^ 22"
    by simp
  from round_double_error_bound [OF this] have e3: "\<bar>A - d'\<^sup>2\<bar> \<le> 1 / 2 ^ 31"
    by (simp add: A_def)
  show "\<bar>float_pow2 (float_sub a b) - (a - b)\<^sup>2\<bar> \<le> 1 / 2 ^ 29"
    unfolding A d_def [symmetric] by (rule error_chain [OF e3 e2]) simp
  show "0 \<le> float_pow2 (float_sub a b)"
    unfolding A A_def by (rule round_double_nonneg) simp
  have "1 / 2 ^ 31 \<le> (1::real)" and "(4004001::real) + 1 \<le> 2 ^ 23"
    by simp_all
  with e3 s show "float_pow2 (float_sub a b) \<le> 2 ^ 23"
    unfolding A by linarith
qed

lemma sqrt_error:
  assumes "0 \<le> s" and "0 \<le> t" and "\<bar>s - t\<bar> \<le> 1 / 2 ^ 26"
  shows "\<bar>sqrt s - sqrt t\<bar> \<le> 1 / 2 ^ 13"
proof -
  have r: "sqrt (1 / 2 ^ 26) = 1 / 2 ^ 13"
    using real_sqrt_abs [of "1 / 2 ^ 13"] by (simp add: power2_eq_square)
  have "sqrt u \<le> sqrt v + 1 / 2 ^ 13" if "0 \<le> v" "u \<le> v + 1 / 2 ^ 26" for u v :: real
  proof -
    have "sqrt u \<le> sqrt (v + 1 / 2 ^ 26)"
      using that(2) by (rule real_sqrt_le_mono)
    also have "\<dots> \<le> sqrt v + sqrt (1 / 2 ^ 26)"
      using that(1) by (intro sqrt_add_le_add_sqrt) simp_all
    finally show ?thesis by (simp only: r)
  qed
  note step = this
  from assms(3) have "s \<le> t + 1 / 2 ^ 26" and "t \<le> s + 1 / 2 ^ 26"
    by linarith+
  with step [of t s] step [of s t] assms(1,2)
  have "sqrt s \<le> sqrt t + 1 / 2 ^ 13" and "sqrt t \<le> sqrt s + 1 / 2 ^ 13"
    by blast+
  then show ?thesis
    by linarith
qed

lemma distance_to_accuracy:
  assumes "\<bar>pos_x p\<bar> \<le> 1000" and "\<bar>pos_y p\<bar> \<le> 1000"
    and "\<bar>pos_x q\<bar> \<le> 1000" and "\<bar>pos_y q\<bar> \<le> 1000"
  shows "\<bar>distance_to p q - straight_line p q\<bar> \<le> 1 / 2 ^ 12"
proof -
  define A where "A = float_pow2 (float_sub (pos_x p) (pos_x q))"
  define B where "B = float_pow2 (float_sub (pos_y p) (pos_y q))"
  define S where "S = round_double (A + B)"
  define D where "D = (pos_x p - pos_x q)\<^sup>2 + (pos_y p - pos_y q)\<^sup>2"
  note a = square_error [OF assms(1,3), folded A_def]
  note b = square_error [OF assms(2,4), folded B_def]
  have "\<bar>A + B\<bar> \<le> 2 ^ 24"
    using a(2,3) b(2,3) by simp
  from round_double_error_bound [OF this] have e: "\<bar>S - (A + B)\<bar> \<le> 1 / 2 ^ 29"
    by (simp add: S_def)
  have S0: "0 \<le> S"
    unfolding S_def using a(2) b(2) by (intro round_double_nonneg) simp
  have D0: "0 \<le> D"
    by (simp add: D_def)
  have "\<bar>S - D\<bar> \<le> 1 / 2 ^ 29 + 1 / 2 ^ 29 + 1 / 2 ^ 29"
    using e a(1) b(1) unfolding D_def by linarith
  then have "\<bar>S - D\<bar> \<le> 1 / 2 ^ 26"
    by simp
  from sqrt_error [OF S0 D0 this] have r: "\<bar>sqrt S - sqrt D\<bar> \<le> 1 / 2 ^ 13" .
  have "1 / 2 ^ 29 \<le> (1::real)" and "(2::real) ^ 23 + 2 ^ 23 + 1 \<le> 2 ^ 26"
    by simp_all
  with e a(3) b(3) have "S \<le> 2 ^ 26"
    by linarith
  then have "sqrt S \<le> sqrt (2 ^ 26)"
    by (rule real_sqrt_le_mono)
  moreover have "sqrt (2 ^ 26) = (2 ^ 13 :: real)"
    using real_sqrt_abs [of "2 ^ 13 :: real"] by (simp add: power2_eq_square)
  ultimately have "\<bar>sqrt S\<bar> \<le> 2 ^ 13"
    using S0 by simp
  from round_double_error_bound [OF this] have f: "\<bar>round_double (sqrt S) - sqrt S\<bar> \<le> 1 / 2 ^ 40"
    by simp
  have "distance_to p q = round_double (sqrt S)"
    by (simp add: distance_to_def float_pow_half_def float_add_def S_def A_def B_def)
  moreover have "straight_line p q = sqrt D"
    by (simp add: straight_line_def D_def)
  ultimately show ?thesis
    by (simp only:) (rule error_chain [OF f r], simp)
qed

lemma ulp_le_half_abs:
  assumes "2 powi (- 1022) \<le> \<bar>x\<bar>"
  shows "ulp x \<le> \<bar>x\<bar> / 2"
proof -
  define e where "e = \<lfloor>log 2 \<bar>x\<bar>\<rfloor>"
  have "0 < (2::real) powi (- 1022)"
    by (rule zero_less_power_int) simp
  with assms have ne: "x \<noteq> 0"
    by auto
  have "(2::real) powr real_of_int (- 1022) = 2 powi (- 1022)"
    by (rule powr_real_of_int') simp_all
  with assms have "2 powr real_of_int (- 1022) \<le> \<bar>x\<bar>"
    by (simp only: )
  then have "real_of_int (- 1022) \<le> log 2 \<bar>x\<bar>"
    using ne by (simp add: le_log_iff del: of_int_minus)
  then have "- 1022 \<le> e"
    unfolding e_def by (simp only: le_floor_iff)
  then have "max e (- 1022) = e"
    by linarith
  then have u: "ulp x = 2 powi (e - 52)"
    by (simp only: ulp_def e_def [symmetric])
  have "(2::real) powi (e - 52) \<le> 2 powi (e - 1)"
    by (rule power_int_increasing) simp_all
  moreover have "(2::real) powi (e - 1) * 2 = 2 powi e"
    by (rule power_int_minus_mult) simp
  moreover have "2 powi e \<le> \<bar>x\<bar>"
    unfolding e_def using ne by (rule power_int_floor_log_le)
  ultimately show ?thesis
    unfolding u by linarith
qed

lemma round_double_abs_ge:
  assumes "2 powi (- 1022) \<le> \<bar>x\<bar>"
  shows "\<bar>x\<bar> * 3 / 4 \<le> \<bar>round_double x\<bar>"
  using round_double_error [of x] ulp_le_half_abs [OF assms] by linarith

lemma nearby_square: "nearby * nearby = least"
proof -
  have "(2::real) powi (- 537 + - 537) = 2 powi (- 537) * 2 powi (- 537)"
    by (rule power_int_add) simp
  moreover have "(- 537 :: int) + - 537 = - 1074"
    by simp
  ultimately show ?thesis
    unfolding nearby_def least_def by (simp only: )
qed

lemma nearby_pos: "0 < nearby"
  unfolding nearby_def by (rule zero_less_power_int) simp

lemma nearby_normal: "2 powi (- 1022) \<le> nearby"
  unfolding nearby_def by (rule power_int_increasing) simp_all

lemma float_sub_square_large:
  assumes "nearby \<le> \<bar>a - b\<bar>"
  shows "half_least < (float_sub a b)\<^sup>2"
proof -
  define r where "r = \<bar>float_sub a b\<bar>"
  have "2 powi (- 1022) \<le> \<bar>a - b\<bar>"
    using nearby_normal assms by linarith
  from round_double_abs_ge [OF this] have "\<bar>a - b\<bar> * 3 / 4 \<le> r"
    by (simp only: r_def float_sub_def)
  moreover from assms have "nearby * 3 / 4 \<le> \<bar>a - b\<bar> * 3 / 4"
    by simp
  ultimately have r: "nearby * 3 / 4 \<le> r"
    by (rule order_trans [rotated])
  have "(nearby * 3 / 4) * (nearby * 3 / 4) \<le> r * r"
    using r nearby_pos by (intro mult_mono) simp_all
  moreover have "(nearby * 3 / 4) * (nearby * 3 / 4) = nearby * nearby * 9 / 16"
    by simp
  ultimately have "least * 9 / 16 \<le> r * r"
    by (simp only: nearby_square)
  moreover have "r * r = (float_sub a b)\<^sup>2"
    by (simp add: r_def power2_eq_square)
  ultimately show ?thesis
    using half_least_double least_pos by linarith
qed

lemma distance_to_0_nearby:
  assumes "distance_to p q = 0"
  shows "\<bar>pos_x p - pos_x q\<bar> < nearby" and "\<bar>pos_y p - pos_y q\<bar> < nearby"
proof -
  from assms have z: "(float_sub (pos_x p) (pos_x q))\<^sup>2 \<le> half_least"
      "(float_sub (pos_y p) (pos_y q))\<^sup>2 \<le> half_least"
    by (simp_all add: distance_to_eq_0_iff)
  show "\<bar>pos_x p - pos_x q\<bar> < nearby"
    using float_sub_square_large [of "pos_x p" "pos_x q"] z(1) by linarith
  show "\<bar>pos_y p - pos_y q\<bar> < nearby"
    using float_sub_square_large [of "pos_y p" "pos_y q"] z(2) by linarith
qed

section \<open>The distance between two positions\<close>

lemma tiny_less_1: "tiny < 1"
proof -
  have "(2::real) powi (- 600) < 2 powi 0"
    by (rule power_int_strict_increasing) simp_all
  then show ?thesis
    by (simp only: tiny_def power_int_0_right)
qed

lemma is_double_tiny: "is_double tiny"
  using float_sub_tiny by (simp add: is_double_def float_sub_def)




section \<open>Choosing the nearest available robot\<close>

lemma find_best_robot_loop_Some:
  "find_best_robot_loop t xs (Some b) (Finite m) = Some r \<Longrightarrow>
     (r = b \<and> (\<forall>x\<in>set xs. m \<le> distance_of t x))
   \<or> (\<exists>pre post. xs = pre @ r # post \<and> distance_of t r < m
         \<and> (\<forall>x\<in>set pre. distance_of t r < distance_of t x)
         \<and> (\<forall>x\<in>set post. distance_of t r \<le> distance_of t x))"
proof (induction xs arbitrary: b m)
  case Nil
  then show ?case by simp
next
  case (Cons a xs)
  show ?case
  proof (cases "distance_of t a < m")
    case True
    with Cons.prems have "find_best_robot_loop t xs (Some a) (Finite (distance_of t a)) = Some r"
      by simp
    from Cons.IH [OF this] show ?thesis
    proof
      assume "r = a \<and> (\<forall>x\<in>set xs. distance_of t a \<le> distance_of t x)"
      with True have "a # xs = [] @ r # xs \<and> distance_of t r < m
         \<and> (\<forall>x\<in>set []. distance_of t r < distance_of t x)
         \<and> (\<forall>x\<in>set xs. distance_of t r \<le> distance_of t x)"
        by simp
      then show ?thesis by blast
    next
      assume "\<exists>pre post. xs = pre @ r # post \<and> distance_of t r < distance_of t a
         \<and> (\<forall>x\<in>set pre. distance_of t r < distance_of t x)
         \<and> (\<forall>x\<in>set post. distance_of t r \<le> distance_of t x)"
      then obtain pre post where "xs = pre @ r # post" "distance_of t r < distance_of t a"
         "\<forall>x\<in>set pre. distance_of t r < distance_of t x"
         "\<forall>x\<in>set post. distance_of t r \<le> distance_of t x"
        by blast
      with True have "a # xs = (a # pre) @ r # post \<and> distance_of t r < m
         \<and> (\<forall>x\<in>set (a # pre). distance_of t r < distance_of t x)
         \<and> (\<forall>x\<in>set post. distance_of t r \<le> distance_of t x)"
        by simp
      then show ?thesis by blast
    qed
  next
    case False
    with Cons.prems have "find_best_robot_loop t xs (Some b) (Finite m) = Some r"
      by simp
    from Cons.IH [OF this] show ?thesis
    proof
      assume "r = b \<and> (\<forall>x\<in>set xs. m \<le> distance_of t x)"
      with False show ?thesis by simp
    next
      assume "\<exists>pre post. xs = pre @ r # post \<and> distance_of t r < m
         \<and> (\<forall>x\<in>set pre. distance_of t r < distance_of t x)
         \<and> (\<forall>x\<in>set post. distance_of t r \<le> distance_of t x)"
      then obtain pre post where "xs = pre @ r # post" "distance_of t r < m"
         "\<forall>x\<in>set pre. distance_of t r < distance_of t x"
         "\<forall>x\<in>set post. distance_of t r \<le> distance_of t x"
        by blast
      with False have "a # xs = (a # pre) @ r # post \<and> distance_of t r < m
         \<and> (\<forall>x\<in>set (a # pre). distance_of t r < distance_of t x)
         \<and> (\<forall>x\<in>set post. distance_of t r \<le> distance_of t x)"
        by simp
      then show ?thesis by blast
    qed
  qed
qed

lemma find_best_robot_loop_not_None:
  "find_best_robot_loop t xs (Some b) m \<noteq> None"
  by (induction xs arbitrary: b m) (simp_all add: Let_def)

lemma find_best_robot_first_nearest:
  assumes "get_available_robots s \<noteq> []"
  shows "\<exists>pre r post. get_available_robots s = pre @ r # post
           \<and> (\<forall>x\<in>set pre. distance_of t r < distance_of t x)
           \<and> (\<forall>x\<in>set post. distance_of t r \<le> distance_of t x)
           \<and> find_best_robot s t = Some r"
proof -
  from assms obtain a xs where av: "get_available_robots s = a # xs"
    by (cases "get_available_robots s") auto
  have fb: "find_best_robot s t = find_best_robot_loop t xs (Some a) (Finite (distance_of t a))"
    by (simp add: find_best_robot_def av)
  then obtain r where r: "find_best_robot_loop t xs (Some a) (Finite (distance_of t a)) = Some r"
    using find_best_robot_loop_not_None [of t xs a "Finite (distance_of t a)"] by auto
  from find_best_robot_loop_Some [OF r] show ?thesis
  proof
    assume "r = a \<and> (\<forall>x\<in>set xs. distance_of t a \<le> distance_of t x)"
    then have "get_available_robots s = [] @ r # xs
           \<and> (\<forall>x\<in>set []. distance_of t r < distance_of t x)
           \<and> (\<forall>x\<in>set xs. distance_of t r \<le> distance_of t x)
           \<and> find_best_robot s t = Some r"
      using av fb r by simp
    then show ?thesis by blast
  next
    assume "\<exists>pre post. xs = pre @ r # post \<and> distance_of t r < distance_of t a
         \<and> (\<forall>x\<in>set pre. distance_of t r < distance_of t x)
         \<and> (\<forall>x\<in>set post. distance_of t r \<le> distance_of t x)"
    then obtain pre post where "xs = pre @ r # post" "distance_of t r < distance_of t a"
         "\<forall>x\<in>set pre. distance_of t r < distance_of t x"
         "\<forall>x\<in>set post. distance_of t r \<le> distance_of t x"
      by blast
    then have "get_available_robots s = (a # pre) @ r # post
           \<and> (\<forall>x\<in>set (a # pre). distance_of t r < distance_of t x)
           \<and> (\<forall>x\<in>set post. distance_of t r \<le> distance_of t x)
           \<and> find_best_robot s t = Some r"
      using av fb r by simp
    then show ?thesis by blast
  qed
qed

lemma find_best_robot_None: "get_available_robots s = [] \<Longrightarrow> find_best_robot s t = None"
  by (simp add: find_best_robot_def)

lemma find_best_robot_available:
  assumes "find_best_robot s t = Some kr"
  shows "kr \<in> set (get_available_robots s)"
proof (cases "get_available_robots s = []")
  case True
  with assms show ?thesis by (simp add: find_best_robot_None)
next
  case False
  from find_best_robot_first_nearest [OF this, of t] assms show ?thesis
    by auto
qed

lemma assign_task_None:
  assumes "get_available_robots (add_task s t) = []"
  shows "assign_task s t = (Inr None, add_task s t)"
  using assms by (simp add: assign_task_def find_best_robot_def)

lemma assign_task_Some:
  assumes "find_best_robot (add_task s t) t = Some (k, r)" and "is_available r"
  shows "assign_task s t =
     (if is_pending t
      then (Inr (Some (robot_id r)),
            \<lparr>robots = AList.update k (r\<lparr>current_task := Some (task_id t), status_r := BUSY\<rparr>) (robots s),
             tasks = AList.update (task_id t)
                (t\<lparr>assigned_robot := Some (robot_id r), status_t := ASSIGNED\<rparr>) (tasks s)\<rparr>)
      else (Inl SchedulerError,
            \<lparr>robots = AList.update k (r\<lparr>current_task := Some (task_id t), status_r := BUSY\<rparr>) (robots s),
             tasks = AList.update (task_id t)
                (t\<lparr>status_t := PENDING, assigned_robot := None\<rparr>) (tasks s)\<rparr>))"
  using assms
  by (simp add: assign_task_def robot_assign_task_def assign_to_robot_def assign_failed_def
      store_def add_task_def update_last)

lemmas fleet_defs = find_best_robot_def get_available_robots_def fleet_def is_available_def
  float_defs sqrt_25 add_task_def is_pending_def sample_defs

lemma distance_to_near_straight_line:
  assumes "position_ok p" and "position_ok q"
  shows "\<bar>distance_to p q - straight_line p q\<bar> \<le> 1 / 2 ^ 12"
  using assms by (intro distance_to_accuracy) (simp_all add: position_ok_def abs_le_iff)

lemma near_least:
  fixes a b c d :: real
  assumes "\<bar>a - c\<bar> \<le> 1 / 2 ^ 12" and "\<bar>b - d\<bar> \<le> 1 / 2 ^ 12" and "a \<le> b"
  shows "c \<le> d + 1 / 2 ^ 11"
proof -
  have "(1::real) / 2 ^ 12 + 1 / 2 ^ 12 = 1 / 2 ^ 11"
    by simp
  with assms show ?thesis
    by linarith
qed

lemma is_double_above_one: "is_double above_one"
  using float_sub_above_one by (simp add: is_double_def float_sub_def)

lemma above_one_bounds: "1 < above_one" "above_one < 2"
  by (simp_all add: above_one_def)

lemmas ridge_defs = find_best_robot_def get_available_robots_def ridge_def is_available_def
  add_task_def is_pending_def sample_defs distance_to_above_one distance_to_level




section \<open>Rejected calls\<close>

lemma assign_task_raises:
  assumes "fst (assign_task s t) = Inl e"
  shows "e = SchedulerError \<and> \<not> is_pending t
     \<and> map_of (tasks (snd (assign_task s t))) (task_id t)
         = Some (t\<lparr>status_t := PENDING, assigned_robot := None\<rparr>)
     \<and> (\<forall>k. k \<noteq> task_id t \<longrightarrow> map_of (tasks (snd (assign_task s t))) k = map_of (tasks s) k)"
proof (cases "find_best_robot (add_task s t) t")
  case None
  with assms show ?thesis by (simp add: assign_task_def)
next
  case (Some kr)
  obtain k r where kr: "kr = (k, r)" by (cases kr)
  from find_best_robot_available [OF Some] have "is_available r"
    by (simp add: get_available_robots_def kr)
  from assign_task_Some [OF Some [unfolded kr] this] assms show ?thesis
    by (simp add: update_conv' split: if_splits)
qed

text \<open>
  C2, the statement as it stands fails: \<open>assign_task\<close> on the fleet with a task that is
  already assigned raises \<open>SchedulerError\<close>, and yet robot \<open>R2\<close> is left \<open>BUSY\<close> with the task
  and the task is stored as \<open>PENDING\<close> with no robot, where it was \<open>ASSIGNED\<close> to \<open>R1\<close>.
\<close>

theorem assign_task_failure_commits:
  "fst (assign_task fleet reassigned) = Inl SchedulerError
   \<and> map_of (robots (snd (assign_task fleet reassigned))) (ord_str ''R2'')
       = Some ((sample_robot ''R2'' 0 1 IDLE 21)\<lparr>current_task := Some (ord_str ''T1''), status_r := BUSY\<rparr>)
   \<and> map_of (robots (snd (assign_task fleet reassigned))) (ord_str ''R2'')
       \<noteq> map_of (robots fleet) (ord_str ''R2'')
   \<and> map_of (tasks (snd (assign_task fleet reassigned))) (ord_str ''T1'')
       = Some (reassigned\<lparr>status_t := PENDING, assigned_robot := None\<rparr>)
   \<and> map_of (tasks (snd (assign_task fleet reassigned))) (ord_str ''T1'') \<noteq> Some reassigned"
proof -
  have f: "find_best_robot (add_task fleet reassigned) reassigned
      = Some (ord_str ''R2'', sample_robot ''R2'' 0 1 IDLE 21)"
    by (simp add: fleet_defs reassigned_def)
  have a: "is_available (sample_robot ''R2'' 0 1 IDLE 21)"
    by (simp add: is_available_def sample_robot_def)
  have n: "\<not> is_pending reassigned"
    by (simp add: is_pending_def reassigned_def sample_task_def)
  have i: "task_id reassigned = ord_str ''T1''"
    by (simp add: reassigned_def sample_task_def)
  have "assign_task fleet reassigned =
     (Inl SchedulerError,
      \<lparr>robots = AList.update (ord_str ''R2'')
          ((sample_robot ''R2'' 0 1 IDLE 21)\<lparr>current_task := Some (ord_str ''T1''), status_r := BUSY\<rparr>)
          (robots fleet),
       tasks = AList.update (ord_str ''T1'')
          (reassigned\<lparr>status_t := PENDING, assigned_robot := None\<rparr>) (tasks fleet)\<rparr>)"
    using assign_task_Some [OF f a] n by (simp add: i)
  then show ?thesis
    by (simp add: update_conv') (simp add: fleet_def reassigned_def sample_defs)
qed

text \<open>
  C2, amended.  \<open>assign_task\<close> of a robot that is not available, and \<open>assign_to_robot\<close>,
  \<open>start_execution\<close> and \<open>complete\<close> of a task from a status that does not allow them, raise
  \<open>ValueError\<close> and leave the object exactly as it was.  When \<open>assign_task\<close> of the scheduler
  raises, the error is \<open>SchedulerError\<close>, the task was not pending, it is stored under its
  identifier with status \<open>PENDING\<close>, no assigned robot and its other fields as passed, and
  every other stored task is as before.
\<close>

theorem rejected_calls_leave_object:
  "(\<not> is_available r \<longrightarrow> robot_assign_task r tid = (Inl ValueError, r))
   \<and> (status_t t \<noteq> PENDING \<longrightarrow> assign_to_robot t rid = (Inl ValueError, t))
   \<and> (status_t t \<noteq> ASSIGNED \<longrightarrow> start_execution t = (Inl ValueError, t))
   \<and> (status_t t \<noteq> IN_PROGRESS \<longrightarrow> complete t = (Inl ValueError, t))
   \<and> (fst (assign_task s u) = Inl e \<longrightarrow>
         e = SchedulerError \<and> status_t u \<noteq> PENDING
         \<and> map_of (tasks (snd (assign_task s u))) (task_id u)
             = Some (u\<lparr>status_t := PENDING, assigned_robot := None\<rparr>)
         \<and> (\<forall>k. k \<noteq> task_id u \<longrightarrow> map_of (tasks (snd (assign_task s u))) k = map_of (tasks s) k))"
proof (intro conjI impI)
  assume "fst (assign_task s u) = Inl e"
  note r = assign_task_raises [OF this]
  from r show "e = SchedulerError" by simp
  from r show "status_t u \<noteq> PENDING" by (simp add: is_pending_def)
  from r show "map_of (tasks (snd (assign_task s u))) (task_id u)
             = Some (u\<lparr>status_t := PENDING, assigned_robot := None\<rparr>)" by simp
  from r show "\<forall>k. k \<noteq> task_id u \<longrightarrow> map_of (tasks (snd (assign_task s u))) k = map_of (tasks s) k"
    by simp
qed (simp_all add: robot_assign_task_def assign_to_robot_def start_execution_def complete_def
       is_pending_def)

theorem rejected_calls_leave_object_witness:
  "robot_assign_task (sample_robot ''R0'' 0 0 IDLE 20) (ord_str ''T1'')
     = (Inl ValueError, sample_robot ''R0'' 0 0 IDLE 20)
   \<and> assign_to_robot reassigned (ord_str ''R2'') = (Inl ValueError, reassigned)
   \<and> start_execution (sample_task ''T1'' 1 PENDING) = (Inl ValueError, sample_task ''T1'' 1 PENDING)
   \<and> complete reassigned = (Inl ValueError, reassigned)
   \<and> fst (assign_task fleet reassigned) = Inl SchedulerError
   \<and> map_of (tasks (snd (assign_task fleet reassigned))) (ord_str ''T1'')
       = Some (sample_task ''T1'' 1 PENDING)"
proof -
  have raised: "fst (assign_task fleet reassigned) = Inl SchedulerError"
  proof -
    have f: "find_best_robot (add_task fleet reassigned) reassigned
        = Some (ord_str ''R2'', sample_robot ''R2'' 0 1 IDLE 21)"
      by (simp add: fleet_defs reassigned_def)
    have a: "is_available (sample_robot ''R2'' 0 1 IDLE 21)"
      by (simp add: is_available_def sample_robot_def)
    have n: "\<not> is_pending reassigned"
      by (simp add: is_pending_def reassigned_def sample_task_def)
    show ?thesis
      using assign_task_Some [OF f a] n by simp
  qed
  have 1: "\<not> is_available (sample_robot ''R0'' 0 0 IDLE 20)"
    by (simp add: is_available_def sample_robot_def)
  have 2: "status_t reassigned \<noteq> PENDING" "status_t reassigned \<noteq> IN_PROGRESS"
    by (simp_all add: reassigned_def sample_task_def)
  have 3: "status_t (sample_task ''T1'' 1 PENDING) \<noteq> ASSIGNED"
    by (simp add: sample_task_def)
  have 4: "task_id reassigned = ord_str ''T1''"
      "reassigned\<lparr>status_t := PENDING, assigned_robot := None\<rparr> = sample_task ''T1'' 1 PENDING"
    by (simp_all add: reassigned_def sample_task_def)
  from rejected_calls_leave_object
    [of "sample_robot ''R0'' 0 0 IDLE 20" "ord_str ''T1''" reassigned "ord_str ''R2''" fleet reassigned SchedulerError]
    1 2 raised
  have "robot_assign_task (sample_robot ''R0'' 0 0 IDLE 20) (ord_str ''T1'')
          = (Inl ValueError, sample_robot ''R0'' 0 0 IDLE 20)"
    and "assign_to_robot reassigned (ord_str ''R2'') = (Inl ValueError, reassigned)"
    and "complete reassigned = (Inl ValueError, reassigned)"
    and "map_of (tasks (snd (assign_task fleet reassigned))) (ord_str ''T1'')
          = Some (sample_task ''T1'' 1 PENDING)"
    by (simp_all add: 4)
  moreover from rejected_calls_leave_object
    [of "sample_robot ''R0'' 0 0 IDLE 20" "ord_str ''T1''" "sample_task ''T1'' 1 PENDING"
        "ord_str ''R2''" fleet reassigned SchedulerError] 3
  have "start_execution (sample_task ''T1'' 1 PENDING) = (Inl ValueError, sample_task ''T1'' 1 PENDING)"
    by simp
  ultimately show ?thesis
    using raised by simp
qed

section \<open>Removing a robot, completing a task\<close>

lemmas yard_defs = yard_def sample_defs

text \<open>
  C3.  \<open>unregister_robot\<close> of an identifier that is not registered returns \<open>False\<close> and leaves
  the scheduler as it is.  When the robot is registered and its current task is stored
  under a non-empty identifier (as every identifier that starts with \<open>T\<close> is), that task gets
  status \<open>PENDING\<close> and no assigned robot, whatever its status was, the robot is removed, and
  the call returns \<open>True\<close>.
\<close>

theorem unregister_robot_resets_task:
  "(map_of (robots s) u = None \<longrightarrow> unregister_robot s u = (False, s))
   \<and> (map_of (robots s) u = Some r \<and> current_task r = Some k \<and> k \<noteq> []
        \<and> map_of (tasks s) k = Some x \<longrightarrow>
        unregister_robot s u =
          (True, \<lparr>robots = AList.delete u (robots s),
                  tasks = AList.update k (x\<lparr>status_t := PENDING, assigned_robot := None\<rparr>) (tasks s)\<rparr>)
        \<and> map_of (robots (snd (unregister_robot s u))) u = None
        \<and> map_of (tasks (snd (unregister_robot s u))) k
            = Some (x\<lparr>status_t := PENDING, assigned_robot := None\<rparr>))"
  by (simp add: unregister_robot_def delete_conv' update_conv')

theorem unregister_robot_resets_task_witness:
  "status_t (sample_task ''T1'' 1 COMPLETED) = COMPLETED
   \<and> unregister_robot yard (ord_str ''R1'') =
       (True, \<lparr>robots = [(ord_str ''R2'', (sample_robot ''R2'' 5 5 BUSY 60)\<lparr>current_task := Some (ord_str ''T2'')\<rparr>)],
               tasks = [(ord_str ''T1'', sample_task ''T1'' 1 PENDING),
                        (ord_str ''T2'', (sample_task ''T2'' 4 ASSIGNED)\<lparr>assigned_robot := Some (ord_str ''R2'')\<rparr>)]\<rparr>)
   \<and> unregister_robot yard (ord_str ''R9'') = (False, yard)"
proof -
  have 1: "map_of (robots yard) (ord_str ''R9'') = None"
    by (simp add: yard_defs)
  have 2: "map_of (robots yard) (ord_str ''R1'')
             = Some ((sample_robot ''R1'' 0 0 BUSY 90)\<lparr>current_task := Some (ord_str ''T1'')\<rparr>)
           \<and> current_task ((sample_robot ''R1'' 0 0 BUSY 90)\<lparr>current_task := Some (ord_str ''T1'')\<rparr>)
               = Some (ord_str ''T1'')
           \<and> ord_str ''T1'' \<noteq> []
           \<and> map_of (tasks yard) (ord_str ''T1'')
               = Some ((sample_task ''T1'' 1 COMPLETED)\<lparr>assigned_robot := Some (ord_str ''R1'')\<rparr>)"
    by (simp add: yard_defs)
  from unregister_robot_resets_task [of yard "ord_str ''R9''"] 1
  have a: "unregister_robot yard (ord_str ''R9'') = (False, yard)"
    by blast
  from unregister_robot_resets_task [of yard "ord_str ''R1''"
      "(sample_robot ''R1'' 0 0 BUSY 90)\<lparr>current_task := Some (ord_str ''T1'')\<rparr>" "ord_str ''T1''"
      "(sample_task ''T1'' 1 COMPLETED)\<lparr>assigned_robot := Some (ord_str ''R1'')\<rparr>"] 2
  have "unregister_robot yard (ord_str ''R1'') =
          (True, \<lparr>robots = AList.delete (ord_str ''R1'') (robots yard),
                  tasks = AList.update (ord_str ''T1'')
                    ((sample_task ''T1'' 1 COMPLETED)\<lparr>assigned_robot := Some (ord_str ''R1''),
                        status_t := PENDING, assigned_robot := None\<rparr>) (tasks yard)\<rparr>)"
    by blast
  then have b: "unregister_robot yard (ord_str ''R1'') =
       (True, \<lparr>robots = [(ord_str ''R2'', (sample_robot ''R2'' 5 5 BUSY 60)\<lparr>current_task := Some (ord_str ''T2'')\<rparr>)],
               tasks = [(ord_str ''T1'', sample_task ''T1'' 1 PENDING),
                        (ord_str ''T2'', (sample_task ''T2'' 4 ASSIGNED)\<lparr>assigned_robot := Some (ord_str ''R2'')\<rparr>)]\<rparr>)"
    by (simp add: yard_defs AList.delete_eq)
  show ?thesis
    using a b by (simp add: sample_task_def)
qed

text \<open>
  C4.  \<open>complete_task\<close> of an identifier under which no task is stored raises
  \<open>TaskNotFoundError\<close>.  When the task is stored and its assigned robot, a non-empty
  identifier, is registered, the call does not raise, the robot ends \<open>IDLE\<close> with no current
  task whether or not the task was \<open>IN_PROGRESS\<close>, and the call returns whether it was: it
  returns \<open>False\<close> and leaves the task as it was when it was not \<open>IN_PROGRESS\<close>.
\<close>

theorem complete_task_releases_robot:
  "(map_of (tasks s) tid = None \<longrightarrow> complete_task s tid = (Inl TaskNotFoundError, s))
   \<and> (map_of (tasks s) tid = Some t \<and> assigned_robot t = Some u \<and> u \<noteq> []
        \<and> map_of (robots s) u = Some r \<longrightarrow>
        complete_task s tid =
          (Inr (status_t t = IN_PROGRESS),
           \<lparr>robots = AList.update u (r\<lparr>current_task := None, status_r := IDLE\<rparr>) (robots s),
            tasks = (if status_t t = IN_PROGRESS
                     then AList.update tid (t\<lparr>status_t := COMPLETED\<rparr>) (tasks s)
                     else tasks s)\<rparr>)
        \<and> map_of (robots (snd (complete_task s tid))) u
            = Some (r\<lparr>current_task := None, status_r := IDLE\<rparr>))"
  by (simp add: complete_task_def release_robot_def robot_complete_task_def complete_def
      update_conv' update_triv)

theorem complete_task_releases_robot_witness:
  "complete_task yard (ord_str ''T9'') = (Inl TaskNotFoundError, yard)
   \<and> status_t ((sample_task ''T2'' 4 ASSIGNED)\<lparr>assigned_robot := Some (ord_str ''R2'')\<rparr>) \<noteq> IN_PROGRESS
   \<and> complete_task yard (ord_str ''T2'') =
       (Inr False,
        \<lparr>robots = [(ord_str ''R1'', (sample_robot ''R1'' 0 0 BUSY 90)\<lparr>current_task := Some (ord_str ''T1'')\<rparr>),
                   (ord_str ''R2'', sample_robot ''R2'' 5 5 IDLE 60)],
         tasks = tasks yard\<rparr>)"
proof -
  have 1: "map_of (tasks yard) (ord_str ''T9'') = None"
    by (simp add: yard_defs)
  have 2: "map_of (tasks yard) (ord_str ''T2'')
             = Some ((sample_task ''T2'' 4 ASSIGNED)\<lparr>assigned_robot := Some (ord_str ''R2'')\<rparr>)
           \<and> assigned_robot ((sample_task ''T2'' 4 ASSIGNED)\<lparr>assigned_robot := Some (ord_str ''R2'')\<rparr>)
               = Some (ord_str ''R2'')
           \<and> ord_str ''R2'' \<noteq> []
           \<and> map_of (robots yard) (ord_str ''R2'')
               = Some ((sample_robot ''R2'' 5 5 BUSY 60)\<lparr>current_task := Some (ord_str ''T2'')\<rparr>)"
    by (simp add: yard_defs)
  have 3: "status_t ((sample_task ''T2'' 4 ASSIGNED)\<lparr>assigned_robot := Some (ord_str ''R2'')\<rparr>) \<noteq> IN_PROGRESS"
    by (simp add: sample_task_def)
  from complete_task_releases_robot [of yard "ord_str ''T9''"] 1
  have a: "complete_task yard (ord_str ''T9'') = (Inl TaskNotFoundError, yard)"
    by blast
  from complete_task_releases_robot [of yard "ord_str ''T2''"
      "(sample_task ''T2'' 4 ASSIGNED)\<lparr>assigned_robot := Some (ord_str ''R2'')\<rparr>" "ord_str ''R2''"
      "(sample_robot ''R2'' 5 5 BUSY 60)\<lparr>current_task := Some (ord_str ''T2'')\<rparr>"] 2
  have "complete_task yard (ord_str ''T2'') =
          (Inr (status_t ((sample_task ''T2'' 4 ASSIGNED)\<lparr>assigned_robot := Some (ord_str ''R2'')\<rparr>) = IN_PROGRESS),
           \<lparr>robots = AList.update (ord_str ''R2'')
               ((sample_robot ''R2'' 5 5 BUSY 60)\<lparr>current_task := Some (ord_str ''T2''),
                  current_task := None, status_r := IDLE\<rparr>) (robots yard),
            tasks = (if status_t ((sample_task ''T2'' 4 ASSIGNED)\<lparr>assigned_robot := Some (ord_str ''R2'')\<rparr>) = IN_PROGRESS
                     then AList.update (ord_str ''T2'')
                        ((sample_task ''T2'' 4 ASSIGNED)\<lparr>assigned_robot := Some (ord_str ''R2''),
                           status_t := COMPLETED\<rparr>) (tasks yard)
                     else tasks yard)\<rparr>)"
    by blast
  then have b: "complete_task yard (ord_str ''T2'') =
       (Inr False,
        \<lparr>robots = [(ord_str ''R1'', (sample_robot ''R1'' 0 0 BUSY 90)\<lparr>current_task := Some (ord_str ''T1'')\<rparr>),
                   (ord_str ''R2'', sample_robot ''R2'' 5 5 IDLE 60)],
         tasks = tasks yard\<rparr>)"
    by (simp add: yard_defs)
  show ?thesis
    using a 3 b by simp
qed

section \<open>Pending tasks by priority\<close>

lemma mset_get_pending_tasks:
  "mset (get_pending_tasks s) = mset (filter is_pending (map snd (tasks s)))"
  by (simp add: get_pending_tasks_def sorted_reverse_def)

text \<open>
  C6.  \<open>get_pending_tasks\<close> returns the stored tasks whose status is \<open>PENDING\<close>, each as often
  as it is stored, in descending order of priority; the tasks of any one priority come in
  the order in which the dictionary holds them, which is the order of their insertion.
\<close>

theorem get_pending_tasks_sorted_stable:
  "mset (get_pending_tasks s) = mset (filter (\<lambda>t. status_t t = PENDING) (map snd (tasks s)))
   \<and> sorted_wrt (\<lambda>a b. priority a \<ge> priority b) (get_pending_tasks s)
   \<and> (\<forall>p. filter (\<lambda>t. priority t = p) (get_pending_tasks s)
          = filter (\<lambda>t. priority t = p) (filter (\<lambda>t. status_t t = PENDING) (map snd (tasks s))))"
proof (intro conjI allI)
  let ?pending = "filter is_pending (map snd (tasks s))"
  have "is_pending = (\<lambda>t. status_t t = PENDING)"
    by (simp add: fun_eq_iff is_pending_def)
  then have p: "?pending = filter (\<lambda>t. status_t t = PENDING) (map snd (tasks s))"
    by simp
  have g: "get_pending_tasks s = rev (sort_key priority (rev ?pending))"
    by (simp add: get_pending_tasks_def sorted_reverse_def)
  show "mset (get_pending_tasks s) = mset (filter (\<lambda>t. status_t t = PENDING) (map snd (tasks s)))"
    using mset_get_pending_tasks [of s] by (simp only: p)
  have "sorted (map priority (sort_key priority (rev ?pending)))"
    by (rule sorted_sort_key)
  then have "sorted_wrt (\<lambda>a b. priority a \<le> priority b) (sort_key priority (rev ?pending))"
    by (simp add: sorted_map)
  then show "sorted_wrt (\<lambda>a b. priority a \<ge> priority b) (get_pending_tasks s)"
    by (simp add: g sorted_wrt_rev)
  fix p
  have "filter (\<lambda>t. priority t = p) (get_pending_tasks s)
       = rev (filter (\<lambda>t. priority t = p) (sort_key priority (rev ?pending)))"
    by (simp add: g rev_filter)
  also have "\<dots> = rev (filter (\<lambda>t. priority t = p) (rev ?pending))"
    by (simp only: sort_key_stable)
  also have "\<dots> = filter (\<lambda>t. priority t = p) ?pending"
    by (simp add: rev_filter)
  finally show "filter (\<lambda>t. priority t = p) (get_pending_tasks s)
          = filter (\<lambda>t. priority t = p) (filter (\<lambda>t. status_t t = PENDING) (map snd (tasks s)))"
    by (simp only: p)
qed

theorem get_pending_tasks_sorted_stable_witness:
  "get_pending_tasks queue
     = [sample_task ''T2'' 5 PENDING, sample_task ''T5'' 5 PENDING,
        sample_task ''T1'' 2 PENDING, sample_task ''T4'' 2 PENDING]
   \<and> filter (\<lambda>t. priority t = 5) (get_pending_tasks queue)
       = [sample_task ''T2'' 5 PENDING, sample_task ''T5'' 5 PENDING]"
proof -
  have "filter (\<lambda>t. priority t = 5) (filter (\<lambda>t. status_t t = PENDING) (map snd (tasks queue)))
      = [sample_task ''T2'' 5 PENDING, sample_task ''T5'' 5 PENDING]"
    by (simp add: queue_def sample_task_def)
  with get_pending_tasks_sorted_stable [of queue]
  have "filter (\<lambda>t. priority t = 5) (get_pending_tasks queue)
       = [sample_task ''T2'' 5 PENDING, sample_task ''T5'' 5 PENDING]"
    by simp
  moreover have "get_pending_tasks queue
     = [sample_task ''T2'' 5 PENDING, sample_task ''T5'' 5 PENDING,
        sample_task ''T1'' 2 PENDING, sample_task ''T4'' 2 PENDING]"
    by (simp add: get_pending_tasks_def sorted_reverse_def queue_def is_pending_def sample_task_def)
  ultimately show ?thesis
    by simp
qed

section \<open>The description of a failed task\<close>

lemma dropWhile_hd: "xs \<noteq> [] \<Longrightarrow> \<not> P (hd xs) \<Longrightarrow> dropWhile P xs = xs"
  by (cases xs) simp_all

lemma strip_id:
  assumes "s \<noteq> []" and "\<not> is_space (hd s)" and "\<not> is_space (last s)"
  shows "strip s = s"
proof -
  have "dropWhile is_space s = s"
    using assms(1,2) by (rule dropWhile_hd)
  moreover have "dropWhile is_space (rev s) = rev s"
    using assms(1,3) by (intro dropWhile_hd) (simp_all add: hd_rev)
  ultimately show ?thesis
    by (simp add: strip_def)
qed

text \<open>
  C8.  The bound does not hold after \<open>fail\<close>.  \<open>long_task\<close> meets every constraint of the
  class, with a description of 500 characters; \<open>fail\<close> with the reason \<open>x\<close> (code point 120)
  appends the label and the reason, nothing is stripped, and the description has 508
  characters, which the constraints of the class reject.
\<close>

theorem fail_breaks_description_bound:
  "task_fields_ok long_task
   \<and> length (description long_task) = 500
   \<and> description (fail long_task [120]) = replicate 500 65 @ failure_label @ [120]
   \<and> length (description (fail long_task [120])) = 508
   \<and> \<not> task_fields_ok (fail long_task [120])"
proof -
  have ok: "task_fields_ok long_task"
    by (simp add: task_fields_ok_def validate_task_id_def long_task_def sample_defs)
  have "strip (replicate 500 65 @ failure_label @ [120]) = replicate 500 65 @ failure_label @ [120]"
    by (rule strip_id) (simp_all add: is_space_def failure_label_def)
  then have d: "description (fail long_task [120]) = replicate 500 65 @ failure_label @ [120]"
    by (simp add: fail_def long_task_def Let_def)
  have l: "length (description (fail long_task [120])) = 508"
    by (simp add: d failure_label_def)
  then have "\<not> task_fields_ok (fail long_task [120])"
    by (simp add: task_fields_ok_def)
  with ok d l show ?thesis
    by (simp add: long_task_def)
qed

section \<open>The task registry\<close>

text \<open>
  C10.  \<open>update_task_status\<close> of an identifier that the registry does not hold returns
  \<open>False\<close> and leaves the registry as it is.  For a task that it holds, and any status at
  all, it returns \<open>True\<close>; the registry then holds the same identifiers in the same order,
  the task has the new status and all its other fields, the assigned robot among them, as
  before, and every other task is as before.  No status is refused.
\<close>

theorem update_task_status_unchecked:
  "(map_of (service_tasks svc) tid = None \<longrightarrow> update_task_status svc tid st = (False, svc))
   \<and> (map_of (service_tasks svc) tid = Some t \<longrightarrow>
        fst (update_task_status svc tid st) = True
        \<and> map_of (service_tasks (snd (update_task_status svc tid st)))
            = (map_of (service_tasks svc))(tid \<mapsto> t\<lparr>status_t := st\<rparr>)
        \<and> map fst (service_tasks (snd (update_task_status svc tid st))) = map fst (service_tasks svc)
        \<and> assigned_robot (t\<lparr>status_t := st\<rparr>) = assigned_robot t)"
proof (cases "map_of (service_tasks svc) tid")
  case None
  then show ?thesis by (simp add: update_task_status_def)
next
  case (Some t')
  then have "tid \<in> fst ` set (service_tasks svc)"
    by (auto dest: map_of_SomeD intro: rev_image_eqI)
  with Some show ?thesis
    by (simp add: update_task_status_def update_conv' update_keys)
qed

theorem update_task_status_unchecked_witness:
  "map_of (service_tasks registry) (ord_str ''T1'')
     = Some ((sample_task ''T1'' 1 COMPLETED)\<lparr>assigned_robot := Some (ord_str ''R1'')\<rparr>)
   \<and> update_task_status registry (ord_str ''T1'') PENDING
       = (True, \<lparr>service_tasks =
            [(ord_str ''T1'', (sample_task ''T1'' 1 PENDING)\<lparr>assigned_robot := Some (ord_str ''R1'')\<rparr>)]\<rparr>)
   \<and> (\<forall>c. lifecycle COMPLETED c \<noteq> Some PENDING)
   \<and> update_task_status registry (ord_str ''T2'') PENDING = (False, registry)"
proof -
  have 1: "map_of (service_tasks registry) (ord_str ''T1'')
     = Some ((sample_task ''T1'' 1 COMPLETED)\<lparr>assigned_robot := Some (ord_str ''R1'')\<rparr>)"
    by (simp add: registry_def)
  have 2: "map_of (service_tasks registry) (ord_str ''T2'') = None"
    by (simp add: registry_def ord_str_def)
  from update_task_status_unchecked [of registry "ord_str ''T1''" PENDING
      "(sample_task ''T1'' 1 COMPLETED)\<lparr>assigned_robot := Some (ord_str ''R1'')\<rparr>"] 1
  have "fst (update_task_status registry (ord_str ''T1'') PENDING) = True"
    by blast
  moreover have "snd (update_task_status registry (ord_str ''T1'') PENDING)
      = \<lparr>service_tasks =
            [(ord_str ''T1'', (sample_task ''T1'' 1 PENDING)\<lparr>assigned_robot := Some (ord_str ''R1'')\<rparr>)]\<rparr>"
    by (simp add: update_task_status_def registry_def sample_task_def)
  ultimately have a: "update_task_status registry (ord_str ''T1'') PENDING
       = (True, \<lparr>service_tasks =
            [(ord_str ''T1'', (sample_task ''T1'' 1 PENDING)\<lparr>assigned_robot := Some (ord_str ''R1'')\<rparr>)]\<rparr>)"
    by (simp add: prod_eq_iff)
  from update_task_status_unchecked [of registry "ord_str ''T2''" PENDING] 2
  have b: "update_task_status registry (ord_str ''T2'') PENDING = (False, registry)"
    by blast
  have c: "lifecycle COMPLETED c \<noteq> Some PENDING" for c
    by (cases c) simp_all
  show ?thesis
    using 1 a b c by simp
qed

section \<open>Assigning all pending tasks\<close>

lemma add_task_stored: "map_of (tasks s) (task_id t) = Some t \<Longrightarrow> add_task s t = s"
  by (simp add: add_task_def update_triv)

lemma available_robot_id:
  assumes "wf_scheduler s" and "(k, r) \<in> set (get_available_robots s)"
  shows "robot_id r = k" and "k \<noteq> []" and "is_available r" and "map_of (robots s) k = Some r"
proof -
  from assms(2) have m: "(k, r) \<in> set (robots s)" and a: "is_available r"
    by (simp_all add: get_available_robots_def)
  from assms(1) m have "robot_id (snd (k, r)) = fst (k, r) \<and> validate_robot_id (fst (k, r))"
    unfolding wf_scheduler_def by blast
  then show "robot_id r = k" and "k \<noteq> []"
    by (auto simp add: validate_robot_id_def)
  show "is_available r" by (rule a)
  from assms(1) have "distinct (map fst (robots s))"
    by (simp add: wf_scheduler_def)
  with m show "map_of (robots s) k = Some r" by simp
qed

lemma assign_task_stored:
  assumes wf: "wf_scheduler s" and st: "map_of (tasks s) (task_id t) = Some t" and p: "is_pending t"
  shows "(get_available_robots s = [] \<and> assign_task s t = (Inr None, s))
       \<or> (\<exists>k r. (k, r) \<in> set (get_available_robots s) \<and> k \<noteq> []
              \<and> assign_task s t = (Inr (Some k), assigned_state s k r t))"
proof (cases "get_available_robots s = []")
  case True
  then show ?thesis
    using assign_task_None [of s t] by (simp add: add_task_stored [OF st])
next
  case False
  from find_best_robot_first_nearest [OF this, of t]
  obtain kr where f: "find_best_robot s t = Some kr" by blast
  obtain k r where kr: "kr = (k, r)" by (cases kr)
  from find_best_robot_available [OF f] have av: "(k, r) \<in> set (get_available_robots s)"
    by (simp add: kr)
  note ids = available_robot_id [OF wf av]
  have "assign_task s t = (Inr (Some k), assigned_state s k r t)"
    using assign_task_Some [of s t k r] f p ids(1,3)
    by (simp add: kr add_task_stored [OF st] assigned_state_def)
  with av ids(2) show ?thesis by blast
qed

lemma length_update_new: "map_of al k = None \<Longrightarrow> length (AList.update k v al) = Suc (length al)"
  by (induction al) (auto split: if_splits)

lemma available_after_update:
  assumes "distinct (map fst al)" and "(k, r) \<in> set al" and "P r" and "\<not> P r'"
  shows "Suc (length (filter (\<lambda>kr. P (snd kr)) (AList.update k r' al)))
         = length (filter (\<lambda>kr. P (snd kr)) al)"
  using assms
proof (induction al)
  case Nil
  then show ?case by simp
next
  case (Cons a al)
  show ?case
  proof (cases "fst a = k")
    case True
    with Cons.prems have "a = (k, r)"
      by (cases a) (auto intro: rev_image_eqI)
    with Cons.prems show ?thesis by simp
  next
    case False
    with Cons.prems have "(k, r) \<in> set al" and "distinct (map fst al)"
      by auto
    with Cons.IH Cons.prems False show ?thesis by simp
  qed
qed

lemma set_update_subset: "set (AList.update k v al) \<subseteq> insert (k, v) (set al)"
  by (induction al) auto

lemma assigned_state_wf:
  assumes wf: "wf_scheduler s" and av: "(k, r) \<in> set (get_available_robots s)"
  shows "wf_scheduler (assigned_state s k r t)"
proof -
  note ids = available_robot_id [OF wf av]
  have "\<forall>kr\<in>set (AList.update k (r\<lparr>current_task := Some (task_id t), status_r := BUSY\<rparr>) (robots s)).
          robot_id (snd kr) = fst kr \<and> validate_robot_id (fst kr)"
  proof
    fix kr assume "kr \<in> set (AList.update k (r\<lparr>current_task := Some (task_id t), status_r := BUSY\<rparr>) (robots s))"
    then have "kr = (k, r\<lparr>current_task := Some (task_id t), status_r := BUSY\<rparr>) \<or> kr \<in> set (robots s)"
      using set_update_subset by fastforce
    moreover have "(k, r) \<in> set (robots s)"
      using av by (simp add: get_available_robots_def)
    ultimately show "robot_id (snd kr) = fst kr \<and> validate_robot_id (fst kr)"
      using wf ids(1) unfolding wf_scheduler_def by fastforce
  qed
  moreover have "\<forall>kt\<in>set (AList.update (task_id t) (t\<lparr>assigned_robot := Some k, status_t := ASSIGNED\<rparr>) (tasks s)).
          task_id (snd kt) = fst kt"
  proof
    fix kt assume "kt \<in> set (AList.update (task_id t) (t\<lparr>assigned_robot := Some k, status_t := ASSIGNED\<rparr>) (tasks s))"
    then have "kt = (task_id t, t\<lparr>assigned_robot := Some k, status_t := ASSIGNED\<rparr>) \<or> kt \<in> set (tasks s)"
      using set_update_subset by fastforce
    then show "task_id (snd kt) = fst kt"
      using wf unfolding wf_scheduler_def by fastforce
  qed
  ultimately show ?thesis
    using wf by (simp add: wf_scheduler_def assigned_state_def distinct_update)
qed

lemma assigned_state_available:
  assumes wf: "wf_scheduler s" and av: "(k, r) \<in> set (get_available_robots s)"
  shows "Suc (length (get_available_robots (assigned_state s k r t))) = length (get_available_robots s)"
    and "set (get_available_robots (assigned_state s k r t)) \<subseteq> set (get_available_robots s)"
proof -
  let ?r' = "r\<lparr>current_task := Some (task_id t), status_r := BUSY\<rparr>"
  have d: "distinct (map fst (robots s))"
    using wf by (simp add: wf_scheduler_def)
  have m: "(k, r) \<in> set (robots s)" and a: "is_available r"
    using av by (simp_all add: get_available_robots_def)
  have n: "\<not> is_available ?r'"
    by (simp add: is_available_def)
  show "Suc (length (get_available_robots (assigned_state s k r t))) = length (get_available_robots s)"
    using available_after_update [of "robots s" k r is_available ?r', OF d m a n]
    by (simp add: get_available_robots_def assigned_state_def)
  show "set (get_available_robots (assigned_state s k r t)) \<subseteq> set (get_available_robots s)"
  proof
    fix kr assume "kr \<in> set (get_available_robots (assigned_state s k r t))"
    then have "kr \<in> set (AList.update k ?r' (robots s))" and "is_available (snd kr)"
      by (simp_all add: get_available_robots_def assigned_state_def)
    then have "kr \<in> set (robots s)"
      using set_update_subset [of k ?r' "robots s"] n by auto
    with \<open>is_available (snd kr)\<close> show "kr \<in> set (get_available_robots s)"
      by (simp add: get_available_robots_def)
  qed
qed

lemma assigned_state_lookup:
  "map_of (robots (assigned_state s k r t))
     = (map_of (robots s))(k \<mapsto> r\<lparr>current_task := Some (task_id t), status_r := BUSY\<rparr>)"
  "map_of (tasks (assigned_state s k r t))
     = (map_of (tasks s))(task_id t \<mapsto> t\<lparr>assigned_robot := Some k, status_t := ASSIGNED\<rparr>)"
  by (simp_all add: assigned_state_def update_conv')

lemma assigned_state_busy:
  assumes wf: "wf_scheduler s" and av: "(k, r) \<in> set (get_available_robots s)"
  shows "k \<notin> fst ` set (get_available_robots (assigned_state s k r t))"
proof
  assume "k \<in> fst ` set (get_available_robots (assigned_state s k r t))"
  then obtain x where x: "(k, x) \<in> set (get_available_robots (assigned_state s k r t))"
    by auto
  from available_robot_id(3,4) [OF assigned_state_wf [OF wf av] x]
  have "is_available x" and "map_of (robots (assigned_state s k r t)) k = Some x" .
  then show False
    by (auto simp add: assigned_state_lookup is_available_def)
qed

lemma outcome_mono:
  assumes "outcome s1 s' m t" and "set (get_available_robots s1) \<subseteq> set (get_available_robots s)"
  shows "outcome s s' m t"
  using assms unfolding outcome_def by (auto split: option.splits)

lemma auto_assign_loop_post:
  assumes "wf_scheduler s" and "distinct (map task_id ts)"
    and "\<forall>t\<in>set ts. map_of (tasks s) (task_id t) = Some t \<and> is_pending t"
    and "\<forall>t\<in>set ts. map_of m (task_id t) = None"
  shows "\<exists>m' s'. auto_assign_loop ts m s = (Inr m', s')
     \<and> length m' = length m + min (length ts) (length (get_available_robots s))
     \<and> (\<forall>k. k \<notin> task_id ` set ts \<longrightarrow> map_of m' k = map_of m k)
     \<and> (\<forall>k. k \<notin> task_id ` set ts \<longrightarrow> map_of (tasks s') k = map_of (tasks s) k)
     \<and> (\<forall>k. k \<notin> fst ` set (get_available_robots s) \<longrightarrow> map_of (robots s') k = map_of (robots s) k)
     \<and> (\<forall>t\<in>set ts. outcome s s' m' t)"
  using assms
proof (induction ts arbitrary: m s)
  case Nil
  then show ?case by simp
next
  case (Cons t ts)
  let ?tid = "task_id t"
  have stored: "map_of (tasks s) ?tid = Some t" and pending: "is_pending t"
    using Cons.prems(3) by simp_all
  have fresh: "map_of m ?tid = None"
    using Cons.prems(4) by simp
  have notin: "?tid \<notin> task_id ` set ts" and dist: "distinct (map task_id ts)"
    using Cons.prems(2) by auto
  from assign_task_stored [OF Cons.prems(1) stored pending]
  show ?case
  proof (elim disjE conjE exE)
    assume none: "get_available_robots s = []" and step: "assign_task s t = (Inr None, s)"
    have rest: "\<forall>t\<in>set ts. map_of (tasks s) (task_id t) = Some t \<and> is_pending t"
        "\<forall>t\<in>set ts. map_of m (task_id t) = None"
      using Cons.prems(3,4) by simp_all
    from Cons.IH [OF Cons.prems(1) dist rest]
    obtain m' s' where
      run: "auto_assign_loop ts m s = (Inr m', s')" and
      len: "length m' = length m + min (length ts) (length (get_available_robots s))" and
      mfr: "\<forall>k. k \<notin> task_id ` set ts \<longrightarrow> map_of m' k = map_of m k" and
      tfr: "\<forall>k. k \<notin> task_id ` set ts \<longrightarrow> map_of (tasks s') k = map_of (tasks s) k" and
      rfr: "\<forall>k. k \<notin> fst ` set (get_available_robots s) \<longrightarrow> map_of (robots s') k = map_of (robots s) k" and
      out: "\<forall>t\<in>set ts. outcome s s' m' t"
      by blast
    have 1: "auto_assign_loop (t # ts) m s = (Inr m', s')"
      by (simp add: step run)
    have 2: "length m' = length m + min (length (t # ts)) (length (get_available_robots s))"
      using len none by simp
    have 3: "\<forall>k. k \<notin> task_id ` set (t # ts) \<longrightarrow> map_of m' k = map_of m k"
      using mfr by simp
    have 4: "\<forall>k. k \<notin> task_id ` set (t # ts) \<longrightarrow> map_of (tasks s') k = map_of (tasks s) k"
      using tfr by simp
    have "map_of m' ?tid = None" and "map_of (tasks s') ?tid = Some t"
      using mfr tfr notin fresh stored by simp_all
    then have "outcome s s' m' t"
      by (simp add: outcome_def)
    with out have 5: "\<forall>t\<in>set (t # ts). outcome s s' m' t"
      by simp
    from 1 2 3 4 rfr 5 show ?thesis by blast
  next
    fix k r
    assume av: "(k, r) \<in> set (get_available_robots s)" and ne: "k \<noteq> []"
      and step: "assign_task s t = (Inr (Some k), assigned_state s k r t)"
    let ?s1 = "assigned_state s k r t" and ?m1 = "AList.update ?tid k m"
    have wf1: "wf_scheduler ?s1"
      by (rule assigned_state_wf [OF Cons.prems(1) av])
    have other: "task_id t' \<noteq> ?tid" if "t' \<in> set ts" for t'
      using notin that by (metis imageI)
    have rest: "\<forall>t\<in>set ts. map_of (tasks ?s1) (task_id t) = Some t \<and> is_pending t"
        "\<forall>t\<in>set ts. map_of ?m1 (task_id t) = None"
      using Cons.prems(3,4) other by (simp_all add: assigned_state_lookup update_conv')
    note shrink = assigned_state_available [OF Cons.prems(1) av, of t]
    from Cons.IH [OF wf1 dist rest]
    obtain m' s' where
      run: "auto_assign_loop ts ?m1 ?s1 = (Inr m', s')" and
      len: "length m' = length ?m1 + min (length ts) (length (get_available_robots ?s1))" and
      mfr: "\<forall>k. k \<notin> task_id ` set ts \<longrightarrow> map_of m' k = map_of ?m1 k" and
      tfr: "\<forall>k. k \<notin> task_id ` set ts \<longrightarrow> map_of (tasks s') k = map_of (tasks ?s1) k" and
      rfr: "\<forall>k. k \<notin> fst ` set (get_available_robots ?s1) \<longrightarrow> map_of (robots s') k = map_of (robots ?s1) k" and
      out: "\<forall>t\<in>set ts. outcome ?s1 s' m' t"
      by blast
    have 1: "auto_assign_loop (t # ts) m s = (Inr m', s')"
      by (simp add: step run ne)
    have 2: "length m' = length m + min (length (t # ts)) (length (get_available_robots s))"
      using len shrink(1) by (simp add: length_update_new [OF fresh])
    have 3: "\<forall>k. k \<notin> task_id ` set (t # ts) \<longrightarrow> map_of m' k = map_of m k"
      using mfr by (simp add: update_conv')
    have 4: "\<forall>k. k \<notin> task_id ` set (t # ts) \<longrightarrow> map_of (tasks s') k = map_of (tasks s) k"
      using tfr by (simp add: assigned_state_lookup)
    have 5: "\<forall>k'. k' \<notin> fst ` set (get_available_robots s) \<longrightarrow> map_of (robots s') k' = map_of (robots s) k'"
    proof (intro allI impI)
      fix k' assume k': "k' \<notin> fst ` set (get_available_robots s)"
      with shrink(2) have "k' \<notin> fst ` set (get_available_robots ?s1)"
        by auto
      with rfr have "map_of (robots s') k' = map_of (robots ?s1) k'"
        by simp
      moreover from k' av have "k' \<noteq> k"
        by (auto intro: rev_image_eqI)
      ultimately show "map_of (robots s') k' = map_of (robots s) k'"
        by (simp add: assigned_state_lookup)
    qed
    have "map_of m' ?tid = Some k"
      using mfr notin by (simp add: update_conv')
    moreover have "map_of (tasks s') ?tid = Some (t\<lparr>assigned_robot := Some k, status_t := ASSIGNED\<rparr>)"
      using tfr notin by (simp add: assigned_state_lookup)
    moreover have "map_of (robots s') k = Some (r\<lparr>current_task := Some ?tid, status_r := BUSY\<rparr>)"
      using rfr assigned_state_busy [OF Cons.prems(1) av, of t] by (simp add: assigned_state_lookup)
    ultimately have "outcome s s' m' t"
      using av by (auto simp add: outcome_def)
    moreover have "\<forall>t\<in>set ts. outcome s s' m' t"
      using out shrink(2) by (blast intro: outcome_mono)
    ultimately have 6: "\<forall>t\<in>set (t # ts). outcome s s' m' t"
      by simp
    from 1 2 3 4 5 6 show ?thesis by blast
  qed
qed

lemma auto_assign_loop_returns: "\<exists>m' s'. auto_assign_loop ts m s = (Inr m', s')"
proof (induction ts arbitrary: m s)
  case Nil
  show ?case by simp
next
  case (Cons t ts)
  obtain res s1 where step: "assign_task s t = (res, s1)"
    by (cases "assign_task s t")
  show ?case
  proof (cases res)
    case (Inl e)
    with step assign_task_raises [of s t e] have "e = SchedulerError" by simp
    with Inl step Cons.IH [of m s1] show ?thesis by simp
  next
    case (Inr assigned)
    with step Cons.IH [of m s1] Cons.IH [of "AList.update (task_id t) (the assigned) m" s1]
    show ?thesis by (cases assigned) auto
  qed
qed

lemma auto_assign_loop_distinct:
  "distinct (map fst m) \<Longrightarrow> auto_assign_loop ts m s = (Inr m', s') \<Longrightarrow> distinct (map fst m')"
proof (induction ts arbitrary: m s)
  case Nil
  then show ?case by simp
next
  case (Cons t ts)
  obtain res s1 where step: "assign_task s t = (res, s1)"
    by (cases "assign_task s t")
  show ?case
  proof (cases res)
    case (Inl e)
    with step Cons.prems Cons.IH [of m s1] show ?thesis
      by (simp split: if_splits)
  next
    case (Inr assigned)
    with step Cons.prems Cons.IH [of m s1] Cons.IH [of "AList.update (task_id t) (the assigned) m" s1]
    show ?thesis by (cases assigned) (auto simp add: distinct_update split: if_splits)
  qed
qed

lemma pending_tasks_stored:
  assumes "wf_scheduler s"
  shows "distinct (map task_id (get_pending_tasks s))"
    and "\<forall>t\<in>set (get_pending_tasks s). map_of (tasks s) (task_id t) = Some t \<and> is_pending t"
proof -
  have ids: "map task_id (map snd (tasks s)) = map fst (tasks s)"
    using assms by (simp add: wf_scheduler_def)
  have d: "distinct (map fst (tasks s))"
    using assms by (simp add: wf_scheduler_def)
  then have "distinct (map task_id (map snd (tasks s)))"
    by (simp only: ids)
  then have f: "distinct (map task_id (filter is_pending (map snd (tasks s))))"
    by (rule distinct_map_filter)
  have e: "mset (map task_id (get_pending_tasks s))
      = mset (map task_id (filter is_pending (map snd (tasks s))))"
    by (simp only: mset_map mset_get_pending_tasks)
  show "distinct (map task_id (get_pending_tasks s))"
    by (rule iffD2 [OF mset_eq_imp_distinct_iff [OF e] f])
  have "set (get_pending_tasks s) = set (filter is_pending (map snd (tasks s)))"
    using mset_get_pending_tasks [of s] by (rule mset_eq_setD)
  moreover have "map_of (tasks s) (task_id t) = Some t" if "t \<in> snd ` set (tasks s)" for t
  proof -
    from that obtain k where k: "(k, t) \<in> set (tasks s)" by auto
    with assms have "task_id t = k" unfolding wf_scheduler_def by fastforce
    with k d show ?thesis by simp
  qed
  ultimately show "\<forall>t\<in>set (get_pending_tasks s). map_of (tasks s) (task_id t) = Some t \<and> is_pending t"
    by simp
qed

section \<open>The operations keep a scheduler well formed\<close>

text \<open>
  The empty scheduler is well formed, and every operation of the scheduler takes a well-formed
  state to a well-formed state, provided that the robots registered have passed
  \<open>validate_robot_id\<close>, as every constructed \<open>Robot\<close> has.
\<close>

lemma set_delete_subset: "set (AList.delete k al) \<subseteq> set al"
  by (induction al) auto

lemma wf_update_robot:
  assumes "wf_scheduler s" and "robot_id r' = k" and "validate_robot_id k"
  shows "wf_scheduler (s\<lparr>robots := AList.update k r' (robots s)\<rparr>)"
proof -
  have "\<forall>kr\<in>set (AList.update k r' (robots s)). robot_id (snd kr) = fst kr \<and> validate_robot_id (fst kr)"
  proof
    fix kr assume "kr \<in> set (AList.update k r' (robots s))"
    then have "kr = (k, r') \<or> kr \<in> set (robots s)"
      using set_update_subset by fastforce
    then show "robot_id (snd kr) = fst kr \<and> validate_robot_id (fst kr)"
      using assms unfolding wf_scheduler_def by fastforce
  qed
  then show ?thesis
    using assms(1) by (simp add: wf_scheduler_def distinct_update)
qed

lemma wf_update_task:
  assumes "wf_scheduler s" and "task_id t' = k"
  shows "wf_scheduler (s\<lparr>tasks := AList.update k t' (tasks s)\<rparr>)"
proof -
  have "\<forall>kt\<in>set (AList.update k t' (tasks s)). task_id (snd kt) = fst kt"
  proof
    fix kt assume "kt \<in> set (AList.update k t' (tasks s))"
    then have "kt = (k, t') \<or> kt \<in> set (tasks s)"
      using set_update_subset by fastforce
    then show "task_id (snd kt) = fst kt"
      using assms unfolding wf_scheduler_def by fastforce
  qed
  then show ?thesis
    using assms(1) by (simp add: wf_scheduler_def distinct_update)
qed

lemma wf_delete_robot:
  assumes "wf_scheduler s"
  shows "wf_scheduler (s\<lparr>robots := AList.delete k (robots s)\<rparr>)"
  using assms set_delete_subset [of k "robots s"]
  unfolding wf_scheduler_def by (auto simp add: distinct_delete)

lemma wf_stored_robot:
  assumes "wf_scheduler s" and "map_of (robots s) k = Some r"
  shows "robot_id r = k" and "validate_robot_id k"
proof -
  from assms(2) have "(k, r) \<in> set (robots s)" by (rule map_of_SomeD)
  with assms(1) have "robot_id (snd (k, r)) = fst (k, r) \<and> validate_robot_id (fst (k, r))"
    unfolding wf_scheduler_def by blast
  then show "robot_id r = k" and "validate_robot_id k" by simp_all
qed

lemma wf_stored_task:
  assumes "wf_scheduler s" and "map_of (tasks s) k = Some t"
  shows "task_id t = k"
proof -
  from assms(2) have "(k, t) \<in> set (tasks s)" by (rule map_of_SomeD)
  with assms(1) have "task_id (snd (k, t)) = fst (k, t)"
    unfolding wf_scheduler_def by blast
  then show ?thesis by simp
qed

lemma wf_empty: "wf_scheduler \<lparr>robots = [], tasks = []\<rparr>"
  by (simp add: wf_scheduler_def)

lemma wf_register_robot:
  assumes "wf_scheduler s" and "validate_robot_id (robot_id r)"
  shows "wf_scheduler (snd (register_robot s r))"
  using assms wf_update_robot [of s r "robot_id r"] by (simp add: register_robot_def)

lemma wf_add_task: "wf_scheduler s \<Longrightarrow> wf_scheduler (add_task s t)"
  using wf_update_task [of s t "task_id t"] by (simp add: add_task_def)

lemma wf_unregister_robot:
  assumes "wf_scheduler s"
  shows "wf_scheduler (snd (unregister_robot s u))"
proof (cases "map_of (robots s) u")
  case None
  with assms show ?thesis by (simp add: unregister_robot_def)
next
  case (Some r)
  show ?thesis
  proof (cases "current_task r")
    case None
    with Some wf_delete_robot [OF assms, of u] show ?thesis
      by (simp add: unregister_robot_def)
  next
    case k: (Some k)
    show ?thesis
    proof (cases "map_of (tasks s) k")
      case None
      with Some k wf_delete_robot [OF assms, of u] show ?thesis
        by (simp add: unregister_robot_def)
    next
      case t: (Some t)
      have "wf_scheduler (s\<lparr>tasks := AList.update k (t\<lparr>status_t := PENDING, assigned_robot := None\<rparr>) (tasks s)\<rparr>)"
        using wf_stored_task [OF assms t] by (intro wf_update_task [OF assms]) simp
      from wf_delete_robot [OF this, of u] Some k t wf_delete_robot [OF assms, of u] show ?thesis
        by (simp add: unregister_robot_def)
    qed
  qed
qed

lemma wf_assign_task:
  assumes "wf_scheduler s"
  shows "wf_scheduler (snd (assign_task s t))"
proof (cases "find_best_robot (add_task s t) t")
  case None
  with wf_add_task [OF assms, of t] show ?thesis
    by (simp add: assign_task_def)
next
  case (Some kr)
  obtain k r where kr: "kr = (k, r)" by (cases kr)
  from find_best_robot_available [OF Some]
  have av: "(k, r) \<in> set (get_available_robots (add_task s t))"
    by (simp add: kr)
  note ids = available_robot_id [OF wf_add_task [OF assms] av]
  let ?r' = "r\<lparr>current_task := Some (task_id t), status_r := BUSY\<rparr>"
  have 1: "wf_scheduler (s\<lparr>robots := AList.update k ?r' (robots s)\<rparr>)"
    using ids(1,4) wf_stored_robot(2) [OF wf_add_task [OF assms] ids(4)]
    by (intro wf_update_robot [OF assms]) simp_all
  have "wf_scheduler (s\<lparr>robots := AList.update k ?r' (robots s),
           tasks := AList.update (task_id t) t' (tasks s)\<rparr>)" if "task_id t' = task_id t" for t'
    using wf_update_task [OF 1 that] by simp
  from this [of "t\<lparr>assigned_robot := Some (robot_id r), status_t := ASSIGNED\<rparr>"]
       this [of "t\<lparr>status_t := PENDING, assigned_robot := None\<rparr>"]
       assign_task_Some [OF Some [unfolded kr] ids(3)]
  show ?thesis
    by (cases s) (simp split: if_splits)
qed

lemma wf_release_robot:
  assumes "wf_scheduler s"
  shows "wf_scheduler (release_robot s t)"
proof (cases "assigned_robot t")
  case None
  with assms show ?thesis by (simp add: release_robot_def)
next
  case (Some u)
  show ?thesis
  proof (cases "map_of (robots s) u")
    case None
    with Some assms show ?thesis by (simp add: release_robot_def)
  next
    case r: (Some r)
    have "wf_scheduler (s\<lparr>robots := AList.update u (robot_complete_task r) (robots s)\<rparr>)"
      using wf_stored_robot [OF assms r]
      by (intro wf_update_robot [OF assms]) (simp_all add: robot_complete_task_def)
    with Some r assms show ?thesis by (simp add: release_robot_def)
  qed
qed

lemma wf_complete_task:
  assumes "wf_scheduler s"
  shows "wf_scheduler (snd (complete_task s tid))"
proof (cases "map_of (tasks s) tid")
  case None
  with assms show ?thesis by (simp add: complete_task_def)
next
  case (Some t)
  have "wf_scheduler ((release_robot s t)\<lparr>tasks := AList.update tid t' (tasks (release_robot s t))\<rparr>)"
    if "task_id t' = task_id t" for t'
    using that wf_stored_task [OF assms Some]
    by (intro wf_update_task [OF wf_release_robot [OF assms]]) simp
  from this [of t] this [of "t\<lparr>status_t := COMPLETED\<rparr>"] Some show ?thesis
    by (simp add: complete_task_def complete_def Let_def)
qed

lemma wf_fail_task:
  assumes "wf_scheduler s"
  shows "wf_scheduler (snd (fail_task s tid reason))"
proof (cases "map_of (tasks s) tid")
  case None
  with assms show ?thesis by (simp add: fail_task_def)
next
  case (Some t)
  have "task_id (fail t reason) = tid"
    using wf_stored_task [OF assms Some] by (simp add: fail_def Let_def)
  from wf_update_task [OF wf_release_robot [OF assms, of t] this] Some show ?thesis
    by (simp add: fail_task_def Let_def)
qed

lemma wf_auto_assign_loop:
  "wf_scheduler s \<Longrightarrow> wf_scheduler (snd (auto_assign_loop ts m s))"
proof (induction ts arbitrary: m s)
  case Nil
  then show ?case by simp
next
  case (Cons t ts)
  obtain res s1 where step: "assign_task s t = (res, s1)"
    by (cases "assign_task s t")
  with wf_assign_task [OF Cons.prems, of t] have wf1: "wf_scheduler s1"
    by simp
  show ?case
  proof (cases res)
    case (Inl e)
    with step wf1 Cons.IH [OF wf1, of m] show ?thesis
      by simp
  next
    case (Inr assigned)
    with step Cons.IH [OF wf1, of m]
      Cons.IH [OF wf1, of "AList.update (task_id t) (the assigned) m"]
    show ?thesis by (cases assigned) auto
  qed
qed

lemma wf_auto_assign_pending_tasks:
  "wf_scheduler s \<Longrightarrow> wf_scheduler (snd (auto_assign_pending_tasks s))"
  by (simp add: auto_assign_pending_tasks_def wf_auto_assign_loop)

section \<open>The result of assigning all pending tasks\<close>

text \<open>
  C7.  \<open>auto_assign_pending_tasks\<close> returns a mapping from every state and raises nothing.
  From a state that the operations build, the mapping holds each key once, its keys are
  identifiers of tasks that were pending, and it has as many entries as there were pending
  tasks or available robots, whichever were fewer, so at most as many as available
  robots.  A pending task in the mapping is afterwards \<open>ASSIGNED\<close> to the robot it is mapped
  to, which was available and is now \<open>BUSY\<close> with that task; a pending task outside the
  mapping is stored as it was, still \<open>PENDING\<close>.  With two available robots and three
  pending tasks the mapping has two entries and a third task stays \<open>PENDING\<close>.
\<close>

theorem auto_assign_pending_tasks_bounded:
  "(\<exists>m s'. auto_assign_pending_tasks s = (Inr m, s'))
   \<and> (wf_scheduler s \<longrightarrow>
        (\<exists>m s'. auto_assign_pending_tasks s = (Inr m, s')
           \<and> distinct (map fst m)
           \<and> fst ` set m \<subseteq> task_id ` set (get_pending_tasks s)
           \<and> length m \<le> length (get_available_robots s)
           \<and> length m = min (length (get_pending_tasks s)) (length (get_available_robots s))
           \<and> (\<forall>t\<in>set (get_pending_tasks s).
                 case map_of m (task_id t) of
                   None \<Rightarrow> map_of (tasks s') (task_id t) = Some t \<and> status_t t = PENDING
                 | Some u \<Rightarrow>
                     map_of (tasks s') (task_id t) = Some (t\<lparr>assigned_robot := Some u, status_t := ASSIGNED\<rparr>)
                     \<and> (\<exists>r. (u, r) \<in> set (get_available_robots s)
                           \<and> map_of (robots s') u = Some (r\<lparr>current_task := Some (task_id t), status_r := BUSY\<rparr>)))
           \<and> (length (get_available_robots s) = 2 \<and> length (get_pending_tasks s) = 3 \<longrightarrow>
                 length m = 2
                 \<and> (\<exists>t\<in>set (get_pending_tasks s). map_of m (task_id t) = None
                       \<and> map_of (tasks s') (task_id t) = Some t \<and> status_t t = PENDING))))"
proof (intro conjI impI)
  show "\<exists>m s'. auto_assign_pending_tasks s = (Inr m, s')"
    using auto_assign_loop_returns [of "get_pending_tasks s" "[]" s]
    by (simp add: auto_assign_pending_tasks_def)
next
  assume wf: "wf_scheduler s"
  let ?ts = "get_pending_tasks s"
  note pend = pending_tasks_stored [OF wf]
  have "\<forall>t\<in>set ?ts. map_of [] (task_id t) = (None :: pystr option)"
    by simp
  from auto_assign_loop_post [OF wf pend this]
  obtain m s' where
    run: "auto_assign_loop ?ts [] s = (Inr m, s')" and
    len0: "length m = length ([] :: (pystr \<times> pystr) list) + min (length ?ts) (length (get_available_robots s))" and
    mfr0: "\<forall>k. k \<notin> task_id ` set ?ts \<longrightarrow> map_of m k = map_of [] k" and
    out: "\<forall>t\<in>set ?ts. outcome s s' m t"
    by blast
  have len: "length m = min (length ?ts) (length (get_available_robots s))"
    using len0 by simp
  have mfr: "map_of m k = None" if "k \<notin> task_id ` set ?ts" for k
    using mfr0 that by simp
  have 1: "auto_assign_pending_tasks s = (Inr m, s')"
    by (simp add: auto_assign_pending_tasks_def run)
  have 2: "distinct (map fst m)"
    using auto_assign_loop_distinct [OF _ run] by simp
  have 3: "fst ` set m \<subseteq> task_id ` set ?ts"
  proof
    fix k assume k: "k \<in> fst ` set m"
    show "k \<in> task_id ` set ?ts"
    proof (rule ccontr)
      assume "k \<notin> task_id ` set ?ts"
      then have "map_of m k = None"
        by (rule mfr)
      then have "k \<notin> fst ` set m"
        by (simp add: map_of_eq_None_iff)
      with k show False
        by contradiction
    qed
  qed
  have 4: "length m \<le> length (get_available_robots s)"
    using len by simp
  have 5: "\<forall>t\<in>set ?ts.
       case map_of m (task_id t) of
         None \<Rightarrow> map_of (tasks s') (task_id t) = Some t \<and> status_t t = PENDING
       | Some u \<Rightarrow>
           map_of (tasks s') (task_id t) = Some (t\<lparr>assigned_robot := Some u, status_t := ASSIGNED\<rparr>)
           \<and> (\<exists>r. (u, r) \<in> set (get_available_robots s)
                 \<and> map_of (robots s') u = Some (r\<lparr>current_task := Some (task_id t), status_r := BUSY\<rparr>))"
  proof
    fix t assume t: "t \<in> set ?ts"
    from out t have "outcome s s' m t"
      by (rule bspec)
    moreover from pend(2) t have "map_of (tasks s) (task_id t) = Some t \<and> is_pending t"
      by (rule bspec)
    then have "status_t t = PENDING"
      by (simp add: is_pending_def)
    ultimately show "case map_of m (task_id t) of
         None \<Rightarrow> map_of (tasks s') (task_id t) = Some t \<and> status_t t = PENDING
       | Some u \<Rightarrow>
           map_of (tasks s') (task_id t) = Some (t\<lparr>assigned_robot := Some u, status_t := ASSIGNED\<rparr>)
           \<and> (\<exists>r. (u, r) \<in> set (get_available_robots s)
                 \<and> map_of (robots s') u = Some (r\<lparr>current_task := Some (task_id t), status_r := BUSY\<rparr>))"
      by (simp add: outcome_def split: option.splits)
  qed
  have 6: "length (get_available_robots s) = 2 \<and> length ?ts = 3 \<longrightarrow>
           length m = 2
           \<and> (\<exists>t\<in>set ?ts. map_of m (task_id t) = None
                 \<and> map_of (tasks s') (task_id t) = Some t \<and> status_t t = PENDING)"
  proof (intro impI conjI)
    assume two: "length (get_available_robots s) = 2 \<and> length ?ts = 3"
    show l: "length m = 2"
      using len two by simp
    have "card (set (map fst m)) \<le> length (map fst m)"
      by (rule card_length)
    then have a: "card (fst ` set m) \<le> length m"
      by simp
    have "card (set (map task_id ?ts)) = length (map task_id ?ts)"
      using pend(1) by (rule distinct_card)
    then have b: "card (task_id ` set ?ts) = length ?ts"
      by simp
    have lt: "card (fst ` set m) < card (task_id ` set ?ts)"
      using a b l two by simp
    have "\<not> task_id ` set ?ts \<subseteq> fst ` set m"
    proof
      assume "task_id ` set ?ts \<subseteq> fst ` set m"
      with 3 have "fst ` set m = task_id ` set ?ts"
        by (rule subset_antisym)
      with lt show False by simp
    qed
    then obtain x where x: "x \<in> task_id ` set ?ts" "x \<notin> fst ` set m"
      by blast
    from x(1) obtain t where t: "t \<in> set ?ts" and xt: "x = task_id t"
      by (rule imageE)
    from x(2) have n: "map_of m (task_id t) = None"
      by (simp add: map_of_eq_None_iff xt)
    from 5 t have "case map_of m (task_id t) of
         None \<Rightarrow> map_of (tasks s') (task_id t) = Some t \<and> status_t t = PENDING
       | Some u \<Rightarrow>
           map_of (tasks s') (task_id t) = Some (t\<lparr>assigned_robot := Some u, status_t := ASSIGNED\<rparr>)
           \<and> (\<exists>r. (u, r) \<in> set (get_available_robots s)
                 \<and> map_of (robots s') u = Some (r\<lparr>current_task := Some (task_id t), status_r := BUSY\<rparr>))"
      by (rule bspec)
    with n have "map_of m (task_id t) = None
                 \<and> map_of (tasks s') (task_id t) = Some t \<and> status_t t = PENDING"
      by simp
    then show "\<exists>t\<in>set ?ts. map_of m (task_id t) = None
                 \<and> map_of (tasks s') (task_id t) = Some t \<and> status_t t = PENDING"
      using t by (rule bexI)
  qed
  show "\<exists>m s'. auto_assign_pending_tasks s = (Inr m, s')
           \<and> distinct (map fst m)
           \<and> fst ` set m \<subseteq> task_id ` set (get_pending_tasks s)
           \<and> length m \<le> length (get_available_robots s)
           \<and> length m = min (length (get_pending_tasks s)) (length (get_available_robots s))
           \<and> (\<forall>t\<in>set (get_pending_tasks s).
                 case map_of m (task_id t) of
                   None \<Rightarrow> map_of (tasks s') (task_id t) = Some t \<and> status_t t = PENDING
                 | Some u \<Rightarrow>
                     map_of (tasks s') (task_id t) = Some (t\<lparr>assigned_robot := Some u, status_t := ASSIGNED\<rparr>)
                     \<and> (\<exists>r. (u, r) \<in> set (get_available_robots s)
                           \<and> map_of (robots s') u = Some (r\<lparr>current_task := Some (task_id t), status_r := BUSY\<rparr>)))
           \<and> (length (get_available_robots s) = 2 \<and> length (get_pending_tasks s) = 3 \<longrightarrow>
                 length m = 2
                 \<and> (\<exists>t\<in>set (get_pending_tasks s). map_of m (task_id t) = None
                       \<and> map_of (tasks s') (task_id t) = Some t \<and> status_t t = PENDING))"
    by (rule exI [of _ m], rule exI [of _ s'], intro conjI) (rule 1 2 3 4 len 5 6)+
qed

theorem auto_assign_pending_tasks_bounded_witness:
  "wf_scheduler depot
   \<and> length (get_available_robots depot) = 2
   \<and> length (get_pending_tasks depot) = 3
   \<and> fst (auto_assign_pending_tasks depot)
       = Inr [(ord_str ''T2'', ord_str ''R3''), (ord_str ''T3'', ord_str ''R1'')]
   \<and> map_of (tasks (snd (auto_assign_pending_tasks depot))) (ord_str ''T1'')
       = Some (sample_task ''T1'' 1 PENDING)"
proof -
  have w: "wf_scheduler depot"
    by (simp add: wf_scheduler_def depot_def validate_robot_id_def sample_defs)
  have p: "get_pending_tasks depot
      = [sample_task ''T2'' 3 PENDING, sample_task ''T3'' 2 PENDING, sample_task ''T1'' 1 PENDING]"
    by (simp add: get_pending_tasks_def sorted_reverse_def depot_def is_pending_def sample_task_def)
  have a: "length (get_available_robots depot) = 2"
    by (simp add: get_available_robots_def depot_def is_available_def sample_robot_def)
  have r: "fst (auto_assign_pending_tasks depot)
       = Inr [(ord_str ''T2'', ord_str ''R3''), (ord_str ''T3'', ord_str ''R1'')]"
    by (simp add: auto_assign_pending_tasks_def p)
       (simp add: depot_def assign_task_def add_task_def find_best_robot_def
          get_available_robots_def is_available_def float_defs sqrt_25 robot_assign_task_def
          assign_to_robot_def is_pending_def store_def assign_failed_def sample_defs)
  from auto_assign_pending_tasks_bounded [of depot] w
  obtain m s' where
    run: "auto_assign_pending_tasks depot = (Inr m, s')" and
    each: "\<forall>t\<in>set (get_pending_tasks depot).
             case map_of m (task_id t) of
               None \<Rightarrow> map_of (tasks s') (task_id t) = Some t \<and> status_t t = PENDING
             | Some u \<Rightarrow>
                 map_of (tasks s') (task_id t) = Some (t\<lparr>assigned_robot := Some u, status_t := ASSIGNED\<rparr>)
                 \<and> (\<exists>r. (u, r) \<in> set (get_available_robots depot)
                       \<and> map_of (robots s') u = Some (r\<lparr>current_task := Some (task_id t), status_r := BUSY\<rparr>))"
    by blast
  from run r have m: "m = [(ord_str ''T2'', ord_str ''R3''), (ord_str ''T3'', ord_str ''R1'')]"
    by simp
  have "sample_task ''T1'' 1 PENDING \<in> set (get_pending_tasks depot)"
    by (simp add: p)
  with each have "case map_of m (task_id (sample_task ''T1'' 1 PENDING)) of
               None \<Rightarrow> map_of (tasks s') (task_id (sample_task ''T1'' 1 PENDING))
                  = Some (sample_task ''T1'' 1 PENDING) \<and> status_t (sample_task ''T1'' 1 PENDING) = PENDING
             | Some u \<Rightarrow>
                 map_of (tasks s') (task_id (sample_task ''T1'' 1 PENDING))
                   = Some ((sample_task ''T1'' 1 PENDING)\<lparr>assigned_robot := Some u, status_t := ASSIGNED\<rparr>)
                 \<and> (\<exists>r. (u, r) \<in> set (get_available_robots depot)
                       \<and> map_of (robots s') u
                           = Some (r\<lparr>current_task := Some (task_id (sample_task ''T1'' 1 PENDING)), status_r := BUSY\<rparr>))"
    by (rule bspec)
  moreover have "map_of m (task_id (sample_task ''T1'' 1 PENDING)) = None"
    by (simp add: m sample_defs)
  ultimately have "map_of (tasks s') (task_id (sample_task ''T1'' 1 PENDING))
      = Some (sample_task ''T1'' 1 PENDING)"
    by simp
  then have "map_of (tasks (snd (auto_assign_pending_tasks depot))) (ord_str ''T1'')
       = Some (sample_task ''T1'' 1 PENDING)"
    by (simp add: run sample_task_def)
  with w a p r show ?thesis
    by simp
qed

end
